theory Spec2Isabelle
  imports Main "HOL-Library.Sublist" "HOL-Library.Monad_Syntax"
begin

section \<open>Strings and the regular expressions of the archiver\<close>

text \<open>
  Go strings are byte sequences; they are modelled as \<open>string\<close> (a list of 8-bit
  characters).  The archiver in \<^verbatim>\<open>internal/services/notemanager.go\<close> works on text with
  patterns of Go's \<^verbatim>\<open>regexp\<close> package.  Every pattern of the file is built from literals,
  single character classes, greedy repetition of one character class, greedy options,
  sequence, alternation and one capturing group, so the patterns are kept as terms of the
  datatype \<open>rx\<close> and run by a backtracking matcher that lists the possible matches at a
  position in the order of preference of Go's leftmost-first semantics.

  Go matches runes; the matcher below matches bytes.  All classes are sets of ASCII
  characters or complements of such sets, and each repetition of a complemented class is
  followed by an ASCII character or ends the pattern, so that both readings select the
  same matches.
\<close>

definition dq :: string where "dq = [CHR 0x22]"
definition sq :: string where "sq = [CHR 0x27]"
definition nl :: string where "nl = [CHR 0x0A]"
definition tab :: string where "tab = [CHR 0x09]"
definition backslash :: string where "backslash = [CHR 0x5C]"

text \<open>The class \<^verbatim>\<open>\s\<close> of RE2: tab, line feed, form feed, carriage return, space.\<close>

definition space_chars :: string where
  "space_chars = [CHR 0x09, CHR 0x0A, CHR 0x0C, CHR 0x0D, CHR 0x20]"

datatype cls = Any_of string | None_of string

fun in_cls :: "cls \<Rightarrow> char \<Rightarrow> bool" where
  "in_cls (Any_of cs) c = (c \<in> set cs)"
| "in_cls (None_of cs) c = (c \<notin> set cs)"

datatype rx =
    Lit string
  | One cls
  | Star cls
  | Plus cls
  | Opt rx
  | Seq rx rx
  | Alt rx rx
  | Grp rx

text \<open>
  A matcher state is the text captured by the group so far and the input that is left.
  \<open>rx_run r st\<close> lists the states after a match of \<open>r\<close>, most preferred first: a greedy
  repetition tries the longest run first, an option tries its body first, an alternation
  its left branch first.
\<close>

type_synonym mstate = "string option \<times> string"

fun rx_run :: "rx \<Rightarrow> mstate \<Rightarrow> mstate list" where
  "rx_run (Lit l) (c, s) = (if prefix l s then [(c, drop (length l) s)] else [])"
| "rx_run (One k) (c, s) =
     (case s of [] \<Rightarrow> [] | x # xs \<Rightarrow> if in_cls k x then [(c, xs)] else [])"
| "rx_run (Star k) (c, s) =
     map (\<lambda>n. (c, drop n s)) (rev [0 ..< Suc (length (takeWhile (in_cls k) s))])"
| "rx_run (Plus k) (c, s) =
     map (\<lambda>n. (c, drop n s)) (rev [1 ..< Suc (length (takeWhile (in_cls k) s))])"
| "rx_run (Opt r) st = rx_run r st @ [st]"
| "rx_run (Seq a b) st = concat (map (rx_run b) (rx_run a st))"
| "rx_run (Alt a b) st = rx_run a st @ rx_run b st"
| "rx_run (Grp r) (c, s) =
     map (\<lambda>(c', s'). (Some (take (length s - length s') s), s')) (rx_run r (c, s))"

fun seqs :: "rx list \<Rightarrow> rx" where
  "seqs [] = Lit []"
| "seqs [r] = r"
| "seqs (r # rs) = Seq r (seqs rs)"

fun alts :: "rx list \<Rightarrow> rx" where
  "alts [] = One (Any_of [])"
| "alts [r] = r"
| "alts (r # rs) = Alt r (alts rs)"

text \<open>
  The match of a pattern at the start of a text: its length and the text of the group
  (empty when the group took no part, as Go reports it).
\<close>

definition match_here :: "rx \<Rightarrow> string \<Rightarrow> (nat \<times> string) option" where
  "match_here r s =
     (case rx_run r (None, s) of
        [] \<Rightarrow> None
      | (c, rest) # _ \<Rightarrow> Some (length s - length rest, case c of None \<Rightarrow> [] | Some g \<Rightarrow> g))"

text \<open>
  \<^verbatim>\<open>FindStringSubmatch\<close>: the leftmost match, as the list of the whole match and the
  group; the empty list (Go's nil) when nothing matches.  It is used only with patterns
  that have exactly one group.
\<close>

fun FindStringSubmatch :: "rx \<Rightarrow> string \<Rightarrow> string list" where
  "FindStringSubmatch r [] =
     (case match_here r [] of Some (n, g) \<Rightarrow> [[], g] | None \<Rightarrow> [])"
| "FindStringSubmatch r (x # xs) =
     (case match_here r (x # xs) of
        Some (n, g) \<Rightarrow> [take n (x # xs), g]
      | None \<Rightarrow> FindStringSubmatch r xs)"

text \<open>\<^verbatim>\<open>FindAllString(s, -1)\<close>: the successive non-overlapping matches.  No pattern of the
  program matches the empty text; a match of length 0 is passed over like no match, here
  and in the replacing scans below.\<close>

fun FindAllString :: "rx \<Rightarrow> string \<Rightarrow> string list" where
  "FindAllString r [] = []"
| "FindAllString r (x # xs) =
     (case match_here r (x # xs) of
        Some (Suc n, g) \<Rightarrow> (x # take n xs) # FindAllString r (drop n xs)
      | _ \<Rightarrow> FindAllString r xs)"

text \<open>
  \<^verbatim>\<open>Expand\<close> of a replacement template, as \<^verbatim>\<open>ReplaceAllString\<close> applies it: \<^verbatim>\<open>$$\<close> is a
  dollar sign, \<^verbatim>\<open>$name\<close> and \<^verbatim>\<open>${name}\<close> stand for a group, and a dollar sign that no name
  follows stays as it is.  With at most one unnamed group, \<^verbatim>\<open>$0\<close> is the match, \<^verbatim>\<open>$1\<close> the
  group and every other name the empty text.  A name is the longest run of letters,
  digits and underscores.  Go counts the letters and digits of all of Unicode; this function
  counts those of ASCII, so the two agree on a template in which no dollar sign is followed,
  directly, behind an opening brace or behind ASCII name characters, by a character outside
  ASCII.
\<close>

definition is_name_char :: "char \<Rightarrow> bool" where
  "is_name_char c =
     (let n = (of_char c :: nat)
      in (65 \<le> n \<and> n \<le> 90) \<or> (97 \<le> n \<and> n \<le> 122) \<or> (48 \<le> n \<and> n \<le> 57) \<or> n = 95)"

definition extract_name :: "string \<Rightarrow> (string \<times> string) option" where
  "extract_name str =
     (case str of
        [] \<Rightarrow> None
      | c # cs \<Rightarrow>
          if c = CHR 0x7B then
            (let name = takeWhile is_name_char cs; rest = dropWhile is_name_char cs
             in if name = [] then None
                else (case rest of
                        [] \<Rightarrow> None
                      | d # rest' \<Rightarrow> if d = CHR 0x7D then Some (name, rest') else None))
          else
            (let name = takeWhile is_name_char str
             in if name = [] then None else Some (name, dropWhile is_name_char str)))"

definition group_value :: "string \<Rightarrow> string \<Rightarrow> string \<Rightarrow> string" where
  "group_value name m g = (if name = ''0'' then m else if name = ''1'' then g else [])"

lemma extract_name_shorter: "extract_name t = Some (name, rest) \<Longrightarrow> length rest \<le> length t"
proof -
  have d: "length (dropWhile is_name_char u) \<le> length u" for u
    by (rule length_dropWhile_le)
  assume "extract_name t = Some (name, rest)"
  then show ?thesis
    using d [of t] d [of "tl t"]
    by (auto simp: extract_name_def Let_def split: list.splits if_splits)
qed

function Expand :: "string \<Rightarrow> string \<Rightarrow> string \<Rightarrow> string" where
  "Expand [] m g = []"
| "Expand (c # t) m g =
     (if c \<noteq> CHR ''$'' then c # Expand t m g
      else if t \<noteq> [] \<and> hd t = CHR ''$'' then CHR ''$'' # Expand (tl t) m g
      else (case extract_name t of
              None \<Rightarrow> CHR ''$'' # Expand t m g
            | Some (name, rest) \<Rightarrow> group_value name m g @ Expand rest m g))"
  by pat_completeness auto
termination
  by (relation "measure (\<lambda>(t, m, g). length t)")
     (auto dest: extract_name_shorter simp: less_Suc_eq_le)

text \<open>\<^verbatim>\<open>re.ReplaceAllString(src, repl)\<close>: each match is replaced by the expanded template.\<close>

fun ReplaceAllString :: "rx \<Rightarrow> string \<Rightarrow> string \<Rightarrow> string" where
  "ReplaceAllString r [] repl = []"
| "ReplaceAllString r (x # xs) repl =
     (case match_here r (x # xs) of
        Some (Suc n, g) \<Rightarrow> Expand repl (x # take n xs) g @ ReplaceAllString r (drop n xs) repl
      | _ \<Rightarrow> x # ReplaceAllString r xs repl)"

text \<open>
  \<^verbatim>\<open>re.ReplaceAllStringFunc(src, repl)\<close> scans from the left, replaces each match by the
  value of the callback on it and goes on behind the match.  The callbacks of the archiver
  send HTTP requests, which need not return; the scan returns \<open>None\<close> when a callback
  does not return.
\<close>

fun ReplaceAllStringFunc :: "rx \<Rightarrow> string \<Rightarrow> (string \<Rightarrow> string option) \<Rightarrow> string option" where
  "ReplaceAllStringFunc r [] repl = Some []"
| "ReplaceAllStringFunc r (x # xs) repl =
     (case match_here r (x # xs) of
        Some (Suc n, g) \<Rightarrow>
          do { a \<leftarrow> repl (x # take n xs);
               b \<leftarrow> ReplaceAllStringFunc r (drop n xs) repl;
               Some (a @ b) }
      | _ \<Rightarrow> do { b \<leftarrow> ReplaceAllStringFunc r xs repl; Some (x # b) })"

text \<open>The string helpers of the standard library.\<close>

definition Trim :: "string \<Rightarrow> char \<Rightarrow> string" where
  "Trim s c = rev (dropWhile (\<lambda>x. x = c) (rev (dropWhile (\<lambda>x. x = c) s)))"

text \<open>
  \<^verbatim>\<open>strings.TrimSpace\<close>, for the white space of ASCII.  Go also trims the white space of
  Unicode outside ASCII (such as U+00A0), which this function keeps; the two agree on text
  that neither starts nor ends with such a character.
\<close>

definition TrimSpace :: "string \<Rightarrow> string" where
  "TrimSpace s =
     (let sp = (\<lambda>x. x \<in> set (CHR 0x0B # space_chars))
      in rev (dropWhile sp (rev (dropWhile sp s))))"

definition HasPrefix :: "string \<Rightarrow> string \<Rightarrow> bool" where
  "HasPrefix s p = prefix p s"

definition TrimPrefix :: "string \<Rightarrow> string \<Rightarrow> string" where
  "TrimPrefix s p = (if prefix p s then drop (length p) s else s)"

text \<open>\<^verbatim>\<open>strings.Replace(s, old, new, 1)\<close>: the first occurrence of \<open>old\<close> is replaced.\<close>

fun ReplaceFirst :: "string \<Rightarrow> string \<Rightarrow> string \<Rightarrow> string" where
  "ReplaceFirst [] old new = (if old = [] then new else [])"
| "ReplaceFirst (x # xs) old new =
     (if prefix old (x # xs) then new @ drop (length old) (x # xs)
      else x # ReplaceFirst xs old new)"

text \<open>
  \<^verbatim>\<open>strings.ToLower\<close>, for the letters of ASCII.  Go also maps the capital letters of
  Unicode outside ASCII (U+0130 becomes \<^verbatim>\<open>i\<close>), which this function leaves as they are; the
  two agree on ASCII text.
\<close>

definition ToLower :: "string \<Rightarrow> string" where
  "ToLower s =
     map (\<lambda>c. let n = (of_char c :: nat) in if 65 \<le> n \<and> n \<le> 90 then char_of (n + 32) else c) s"

text \<open>\<^verbatim>\<open>path.Ext\<close>: the suffix from the last dot of the last element of the path, scanned
  from the end.\<close>

fun ext_scan :: "string \<Rightarrow> string \<Rightarrow> string" where
  "ext_scan [] acc = []"
| "ext_scan (c # cs) acc =
     (if c = CHR ''/'' then []
      else if c = CHR ''.'' then c # acc
      else ext_scan cs (c # acc))"

definition path_Ext :: "string \<Rightarrow> string" where
  "path_Ext p = ext_scan (rev p) []"

text \<open>\<^verbatim>\<open>base64.StdEncoding.EncodeToString\<close>.\<close>

definition b64_alphabet :: string where
  "b64_alphabet = ''ABCDEFGHIJKLMNOPQRSTUVWXYZabcdefghijklmnopqrstuvwxyz0123456789+/''"

definition b64_digit :: "nat \<Rightarrow> char" where
  "b64_digit n = b64_alphabet ! (n mod 64)"

fun EncodeToString :: "string \<Rightarrow> string" where
  "EncodeToString [] = []"
| "EncodeToString [a] =
     (let x = (of_char a :: nat)
      in [b64_digit (x div 4), b64_digit ((x mod 4) * 16), CHR ''='', CHR ''=''])"
| "EncodeToString [a, b] =
     (let x = (of_char a :: nat); y = (of_char b :: nat)
      in [b64_digit (x div 4), b64_digit ((x mod 4) * 16 + y div 16),
          b64_digit ((y mod 16) * 4), CHR ''=''])"
| "EncodeToString (a # b # c # rest) =
     (let x = (of_char a :: nat); y = (of_char b :: nat); z = (of_char c :: nat)
      in [b64_digit (x div 4), b64_digit ((x mod 4) * 16 + y div 16),
          b64_digit ((y mod 16) * 4 + z div 64), b64_digit (z mod 64)]
         @ EncodeToString rest)"

section \<open>File names\<close>

text \<open>
  \<^verbatim>\<open>sanitizeFilename\<close>: runs of the characters \<^verbatim>\<open><>:"/\|?*\<close> and of white space become one
  underscore, the result is cut to 50 bytes and underscores are trimmed at both ends.
\<close>

definition invalid_chars :: string where
  "invalid_chars = ''<>:'' @ dq @ ''/'' @ backslash @ ''|?*'' @ space_chars"

definition sanitizeRe :: rx where
  "sanitizeRe = Plus (Any_of invalid_chars)"

definition sanitizeFilename :: "string \<Rightarrow> string" where
  "sanitizeFilename filename =
     (let sanitized = ReplaceAllString sanitizeRe filename ''_'';
          sanitized = (if length sanitized > 50 then take 50 sanitized else sanitized)
      in Trim sanitized (CHR ''_''))"

text \<open>The characters of the class \<^verbatim>\<open>[A-Za-z0-9_]\<close>.\<close>

definition word_chars :: string where
  "word_chars = ''ABCDEFGHIJKLMNOPQRSTUVWXYZabcdefghijklmnopqrstuvwxyz0123456789_''"

section \<open>The environment of an archive job\<close>

text \<open>
  The archiver talks to the network, the clock and the file system through Go's standard
  library.  What the library answers is a parameter of the model, the record \<open>env\<close>:
  \<^item> \<open>http_Get\<close> is \<^verbatim>\<open>http.Get\<close>, called on the default client, which sets no timeout: the
    request fails, is answered, or never returns (\<open>No_Answer\<close>).  The same URL gets the
    same outcome during a job;
  \<^item> \<open>url_Parse\<close>, \<open>url_ParseRef\<close>, \<open>url_String\<close> and \<open>url_Host\<close> are \<^verbatim>\<open>url.Parse\<close>,
    \<^verbatim>\<open>(*URL).Parse\<close>, \<^verbatim>\<open>(*URL).String\<close> and the field \<^verbatim>\<open>Host\<close>, over a type \<open>'u\<close> of parsed
    URLs;
  \<^item> \<open>TypeByExtension\<close> is \<^verbatim>\<open>mime.TypeByExtension\<close>, \<open>Format\<close> is \<^verbatim>\<open>Time.Format\<close>, \<open>Join\<close> is
    \<^verbatim>\<open>filepath.Join\<close>, \<open>clock\<close> gives the successive readings of \<^verbatim>\<open>time.Now\<close>;
  \<^item> \<open>MkdirAll_ok\<close> and \<open>WriteFile_ok\<close> tell whether the file system accepts the call.
  A function that does not return has the value \<open>None\<close>.
\<close>

record response =
  StatusCode :: nat
  ContentType :: string
  Body :: string
  BodyFails :: bool

datatype outcome = No_Answer | Failed | Answer response

type_synonym time = nat

record 'u env =
  http_Get :: "string \<Rightarrow> outcome"
  url_Parse :: "string \<Rightarrow> 'u option"
  url_ParseRef :: "'u \<Rightarrow> string \<Rightarrow> 'u option"
  url_String :: "'u \<Rightarrow> string"
  url_Host :: "'u \<Rightarrow> string"
  TypeByExtension :: "string \<Rightarrow> string"
  Format :: "time \<Rightarrow> string \<Rightarrow> string"
  Join :: "string list \<Rightarrow> string"
  clock :: "nat \<Rightarrow> time"
  BasePath :: string
  MkdirAll_ok :: "string \<Rightarrow> bool"
  WriteFile_ok :: "string \<Rightarrow> bool"

text \<open>The state a job changes: the clock readings taken, the directories made, the files
  written (path and content, the latest first).\<close>

record world =
  ticks :: nat
  dirs :: "string list"
  files :: "(string \<times> string) list"

definition time_Now :: "'u env \<Rightarrow> world \<Rightarrow> time \<times> world" where
  "time_Now env w = (clock env (ticks w), w\<lparr>ticks := Suc (ticks w)\<rparr>)"

text \<open>
  \<^verbatim>\<open>io.ReadAll\<close> of a body: the bytes, or a read error (\<open>None\<close>) when the body breaks off.
  Behind \<^verbatim>\<open>io.LimitReader(body, n)\<close> the read ends after \<open>n\<close> bytes as at the end of the
  body, so that an error behind them is not seen.
\<close>

definition ReadAll :: "response \<Rightarrow> string option" where
  "ReadAll resp = (if BodyFails resp then None else Some (Body resp))"

definition ReadAllLimited :: "nat \<Rightarrow> response \<Rightarrow> string option" where
  "ReadAllLimited n resp =
     (if n \<le> length (Body resp) then Some (take n (Body resp)) else ReadAll resp)"

section \<open>Resolving and downloading\<close>

definition resolveURL :: "'u env \<Rightarrow> 'u \<Rightarrow> string \<Rightarrow> string" where
  "resolveURL env baseURL targetURL =
     (if CHR '':'' \<in> set targetURL \<and> \<not> HasPrefix targetURL ''http''
         \<and> \<not> HasPrefix targetURL ''//''
      then []
      else (case url_ParseRef env baseURL targetURL of
              None \<Rightarrow> []
            | Some resolvedURL \<Rightarrow> url_String env resolvedURL))"

definition maxSize :: nat where "maxSize = 5 * 1024 * 1024"

definition maxImageSize :: nat where "maxImageSize = 1 * 1024 * 1024"

definition downloadResource :: "'u env \<Rightarrow> string \<Rightarrow> string option" where
  "downloadResource env resourceURL =
     (case http_Get env resourceURL of
        No_Answer \<Rightarrow> None
      | Failed \<Rightarrow> Some []
      | Answer resp \<Rightarrow>
          if StatusCode resp \<noteq> 200 then Some []
          else (case ReadAllLimited maxSize resp of
                  None \<Rightarrow> Some []
                | Some content \<Rightarrow> Some content))"

definition downloadAndEncodeImage :: "'u env \<Rightarrow> string \<Rightarrow> string option" where
  "downloadAndEncodeImage env imageURL =
     (case http_Get env imageURL of
        No_Answer \<Rightarrow> None
      | Failed \<Rightarrow> Some []
      | Answer resp \<Rightarrow>
          if StatusCode resp \<noteq> 200 then Some []
          else
            (let contentType = ContentType resp;
                 contentType =
                   (if contentType = [] then
                      (let ext = ToLower (path_Ext imageURL);
                           contentType = TypeByExtension env ext
                       in if contentType = [] then ''application/octet-stream''
                          else contentType)
                    else contentType)
             in case ReadAllLimited maxImageSize resp of
                  None \<Rightarrow> Some []
                | Some imageData \<Rightarrow>
                    Some (''data:'' @ contentType @ '';base64,'' @ EncodeToString imageData)))"

section \<open>The CSS processor\<close>

definition quote_cls :: cls where "quote_cls = Any_of (dq @ sq)"
definition no_quote :: cls where "no_quote = None_of (dq @ sq)"
definition no_gt :: cls where "no_gt = None_of ''>''"

text \<open>\<^verbatim>\<open>@import\s+(?:url\()?["']([^"']+)["'](?:\))?[^;]*;\<close>\<close>

definition importRe :: rx where
  "importRe = seqs [Lit ''@import'', Plus (Any_of space_chars), Opt (Lit ''url(''),
     One quote_cls, Grp (Plus no_quote), One quote_cls, Opt (Lit '')''),
     Star (None_of '';''), Lit '';'']"

text \<open>\<^verbatim>\<open>url\(["']?([^"')\s]+)["']?\)\<close>\<close>

definition urlRe :: rx where
  "urlRe = seqs [Lit ''url('', Opt (One quote_cls),
     Grp (Plus (None_of (dq @ sq @ '')'' @ space_chars))), Opt (One quote_cls), Lit '')'']"

text \<open>The callback of the \<^verbatim>\<open>url()\<close> pass of \<^verbatim>\<open>processCSS\<close>.\<close>

definition processCSS_url :: "'u env \<Rightarrow> 'u \<Rightarrow> string \<Rightarrow> string option" where
  "processCSS_url env cssBaseURL match =
     (let urlMatch = FindStringSubmatch urlRe match in
      if length urlMatch < 2 then Some match
      else
        (let resourceURL = urlMatch ! 1 in
         if HasPrefix resourceURL ''data:'' then Some match
         else
           (let resolvedURL = resolveURL env cssBaseURL resourceURL in
            if resolvedURL = [] then Some match
            else
              (let ext = ToLower (path_Ext resourceURL);
                   isImage = (ext = ''.png'' \<or> ext = ''.jpg'' \<or> ext = ''.jpeg'' \<or> ext = ''.gif''
                              \<or> ext = ''.svg'' \<or> ext = ''.webp'');
                   isFont = (ext = ''.woff'' \<or> ext = ''.woff2'' \<or> ext = ''.ttf'' \<or> ext = ''.otf''
                             \<or> ext = ''.eot'')
               in if isImage \<or> isFont then
                    do { dataURI \<leftarrow> downloadAndEncodeImage env resolvedURL;
                         if dataURI \<noteq> [] then Some (''url('' @ dq @ dataURI @ dq @ '')'')
                         else Some match }
                  else Some match))))"

lemma ReplaceAllStringFunc_mono [partial_function_mono]:
  assumes "\<And>m. mono_option (\<lambda>f. B f m)"
  shows "mono_option (\<lambda>f. ReplaceAllStringFunc r s (B f))"
proof (induction s rule: length_induct)
  case (1 s)
  show ?case
  proof (cases s)
    case Nil
    then show ?thesis by (auto intro!: partial_function_mono)
  next
    case (Cons x xs)
    have tl: "mono_option (\<lambda>f. ReplaceAllStringFunc r (drop n xs) (B f))" for n
      using 1 Cons by simp
    show ?thesis
    proof (cases "match_here r (x # xs)")
      case None
      then show ?thesis
        using tl [of 0] Cons by (auto intro!: partial_function_mono)
    next
      case (Some a)
      obtain k g where a: "a = (k, g)" by (cases a)
      show ?thesis
      proof (cases k)
        case 0
        then show ?thesis
          using tl [of 0] Cons Some a by (auto intro!: partial_function_mono)
      next
        case (Suc n)
        then show ?thesis
          using tl [of n] assms Cons Some a by (auto intro!: partial_function_mono)
      qed
    qed
  qed
qed

text \<open>
  \<^verbatim>\<open>processCSS\<close> expands the \<^verbatim>\<open>@import\<close> rules, calling itself on each imported sheet, and
  then rewrites the \<^verbatim>\<open>url()\<close> references.  The recursion has no bound in the source, so
  the function is partial: \<open>None\<close> is the run that does not return.
\<close>

partial_function (option) processCSS :: "'u env \<Rightarrow> string \<Rightarrow> string \<Rightarrow> string option" where
  "processCSS env cssContent cssURL =
     (case url_Parse env cssURL of
        None \<Rightarrow> Some cssContent
      | Some cssBaseURL \<Rightarrow>
          do { cssContent \<leftarrow>
                 ReplaceAllStringFunc importRe cssContent
                   (\<lambda>match.
                      let importMatch = FindStringSubmatch importRe match in
                      if length importMatch < 2 then Some match
                      else
                        (let importURL = resolveURL env cssBaseURL (importMatch ! 1) in
                         if importURL = [] then Some match
                         else
                           do { importedCSS \<leftarrow> downloadResource env importURL;
                                if importedCSS = [] then Some match
                                else
                                  do { inner \<leftarrow> processCSS env importedCSS importURL;
                                       Some (''/* Imported from: '' @ importURL @ '' */'' @ nl
                                             @ inner) } }));
               ReplaceAllStringFunc urlRe cssContent (processCSS_url env cssBaseURL) })"

declare processCSS.simps [code]

text \<open>
  \<^verbatim>\<open>processInlineCSS\<close> rewrites the \<^verbatim>\<open>url()\<close> references of a \<^verbatim>\<open>style\<close> attribute; the
  callback comes first.
\<close>

definition processInlineCSS_url :: "'u env \<Rightarrow> 'u \<Rightarrow> string \<Rightarrow> string option" where
  "processInlineCSS_url env baseURL match =
     (let urlMatch = FindStringSubmatch urlRe match in
      if length urlMatch < 2 then Some match
      else
        (let resourceURL = urlMatch ! 1 in
         if HasPrefix resourceURL ''data:'' then Some match
         else
           (let resolvedURL = resolveURL env baseURL resourceURL in
            if resolvedURL = [] then Some match
            else
              do { dataURI \<leftarrow> downloadAndEncodeImage env resolvedURL;
                   if dataURI \<noteq> [] then Some (''url('' @ dq @ dataURI @ dq @ '')'')
                   else Some match })))"

definition processInlineCSS :: "'u env \<Rightarrow> string \<Rightarrow> string \<Rightarrow> string option" where
  "processInlineCSS env cssContent baseURLStr =
     (case url_Parse env baseURLStr of
        None \<Rightarrow> Some cssContent
      | Some baseURL \<Rightarrow>
          ReplaceAllStringFunc urlRe cssContent (processInlineCSS_url env baseURL))"

section \<open>The inliner pipeline\<close>

text \<open>
  \<^verbatim>\<open><link[^>]*href=["']([^"']+)["'][^>]*rel=["']stylesheet["'][^>]*>|<link[^>]*rel=["']stylesheet["'][^>]*href=["']([^"']+)["'][^>]*>\<close>
  (the program never reads the groups of this pattern).
\<close>

definition linkRe :: rx where
  "linkRe =
     Alt (seqs [Lit ''<link'', Star no_gt, Lit ''href='', One quote_cls, Grp (Plus no_quote),
                One quote_cls, Star no_gt, Lit ''rel='', One quote_cls, Lit ''stylesheet'',
                One quote_cls, Star no_gt, Lit ''>''])
         (seqs [Lit ''<link'', Star no_gt, Lit ''rel='', One quote_cls, Lit ''stylesheet'',
                One quote_cls, Star no_gt, Lit ''href='', One quote_cls, Grp (Plus no_quote),
                One quote_cls, Star no_gt, Lit ''>''])"

text \<open>\<^verbatim>\<open>href=["']([^"']+)["']\<close>\<close>

definition hrefRe :: rx where
  "hrefRe = seqs [Lit ''href='', One quote_cls, Grp (Plus no_quote), One quote_cls]"

definition inlineCSS_repl :: "'u env \<Rightarrow> 'u \<Rightarrow> string \<Rightarrow> string option" where
  "inlineCSS_repl env baseURL match =
     (let hrefMatch = FindStringSubmatch hrefRe match in
      if length hrefMatch < 2 then Some match
      else
        (let cssURL = hrefMatch ! 1;
             resolvedURL = resolveURL env baseURL cssURL
         in if resolvedURL = [] then Some match
            else
              do { cssContent \<leftarrow> downloadResource env resolvedURL;
                   if cssContent = [] then Some match
                   else
                     do { processedCSS \<leftarrow> processCSS env cssContent resolvedURL;
                          Some (''<style type='' @ dq @ ''text/css'' @ dq @ ''>'' @ nl
                                @ ''/* Inlined from: '' @ resolvedURL @ '' */'' @ nl
                                @ processedCSS @ nl
                                @ ''</style>'') } }))"

definition inlineCSS :: "'u env \<Rightarrow> string \<Rightarrow> 'u \<Rightarrow> string option" where
  "inlineCSS env htmlContent baseURL =
     ReplaceAllStringFunc linkRe htmlContent (inlineCSS_repl env baseURL)"

text \<open>\<^verbatim>\<open><script[^>]*src=["']([^"']+)["'][^>]*></script>\<close> and \<^verbatim>\<open>src=["']([^"']+)["']\<close>\<close>

definition scriptRe :: rx where
  "scriptRe = seqs [Lit ''<script'', Star no_gt, Lit ''src='', One quote_cls,
     Grp (Plus no_quote), One quote_cls, Star no_gt, Lit ''></script>'']"

definition srcRe :: rx where
  "srcRe = seqs [Lit ''src='', One quote_cls, Grp (Plus no_quote), One quote_cls]"

definition inlineJavaScript_repl :: "'u env \<Rightarrow> 'u \<Rightarrow> string \<Rightarrow> string option" where
  "inlineJavaScript_repl env baseURL match =
     (let srcMatch = FindStringSubmatch srcRe match in
      if length srcMatch < 2 then Some match
      else
        (let jsURL = srcMatch ! 1;
             resolvedURL = resolveURL env baseURL jsURL
         in if resolvedURL = [] then Some match
            else
              do { jsContent \<leftarrow> downloadResource env resolvedURL;
                   if jsContent = [] then Some match
                   else Some (''<script type='' @ dq @ ''text/javascript'' @ dq @ ''>'' @ nl
                              @ ''/* Inlined from: '' @ resolvedURL @ '' */'' @ nl
                              @ jsContent @ nl
                              @ ''</script>'') }))"

definition inlineJavaScript :: "'u env \<Rightarrow> string \<Rightarrow> 'u \<Rightarrow> string option" where
  "inlineJavaScript env htmlContent baseURL =
     ReplaceAllStringFunc scriptRe htmlContent (inlineJavaScript_repl env baseURL)"

text \<open>\<^verbatim>\<open><img[^>]*src=["']([^"']+)["'][^>]*>\<close> and
  \<^verbatim>\<open>['"]([^'"]*\.(?:png|jpg|jpeg|gif|svg|webp))['"]\<close>\<close>

definition imgRe :: rx where
  "imgRe = seqs [Lit ''<img'', Star no_gt, Lit ''src='', One quote_cls, Grp (Plus no_quote),
     One quote_cls, Star no_gt, Lit ''>'']"

definition jsImgRe :: rx where
  "jsImgRe = seqs [One quote_cls,
     Grp (seqs [Star no_quote, Lit ''.'',
                alts [Lit ''png'', Lit ''jpg'', Lit ''jpeg'', Lit ''gif'', Lit ''svg'',
                      Lit ''webp'']]),
     One quote_cls]"

definition inlineImages_img :: "'u env \<Rightarrow> 'u \<Rightarrow> string \<Rightarrow> string option" where
  "inlineImages_img env baseURL match =
     (let srcMatch = FindStringSubmatch srcRe match in
      if length srcMatch < 2 then Some match
      else
        (let imgURL = srcMatch ! 1 in
         if HasPrefix imgURL ''data:'' then Some match
         else
           (let resolvedURL = resolveURL env baseURL imgURL in
            if resolvedURL = [] then Some match
            else
              do { dataURI \<leftarrow> downloadAndEncodeImage env resolvedURL;
                   if dataURI = [] then Some match
                   else Some (ReplaceAllString srcRe match (''src='' @ dq @ dataURI @ dq)) })))"

definition inlineImages_js :: "'u env \<Rightarrow> 'u \<Rightarrow> string \<Rightarrow> string option" where
  "inlineImages_js env baseURL match =
     (let quote = take 1 match;
          imgURL = take (length match - 1 - 1) (drop 1 match)
      in if HasPrefix imgURL ''data:'' then Some match
         else
           (let resolvedURL = resolveURL env baseURL imgURL in
            if resolvedURL = [] then Some match
            else
              do { dataURI \<leftarrow> downloadAndEncodeImage env resolvedURL;
                   if dataURI = [] then Some match
                   else Some (quote @ dataURI @ quote) }))"

definition inlineImages :: "'u env \<Rightarrow> string \<Rightarrow> 'u \<Rightarrow> string option" where
  "inlineImages env htmlContent baseURL =
     do { htmlContent \<leftarrow> ReplaceAllStringFunc imgRe htmlContent (inlineImages_img env baseURL);
          ReplaceAllStringFunc jsImgRe htmlContent (inlineImages_js env baseURL) }"

definition inlineWebFonts :: "'u env \<Rightarrow> string \<Rightarrow> 'u \<Rightarrow> string" where
  "inlineWebFonts env htmlContent baseURL = htmlContent"

text \<open>\<^verbatim>\<open>style=["']([^"']*url\([^)]+\)[^"']*)["']\<close>\<close>

definition styleRe :: rx where
  "styleRe = seqs [Lit ''style='', One quote_cls,
     Grp (seqs [Star no_quote, Lit ''url('', Plus (None_of '')''), Lit '')'', Star no_quote]),
     One quote_cls]"

definition inlineStyleAttributes_repl :: "'u env \<Rightarrow> 'u \<Rightarrow> string \<Rightarrow> string option" where
  "inlineStyleAttributes_repl env baseURL match =
     (let styleMatch = FindStringSubmatch styleRe match in
      if length styleMatch < 2 then Some match
      else
        (let styleContent = styleMatch ! 1;
             quote = take 1 (drop 6 match)
         in do { processedStyle \<leftarrow> processInlineCSS env styleContent (url_String env baseURL);
                 Some (''style='' @ quote @ processedStyle @ quote) }))"

definition inlineStyleAttributes :: "'u env \<Rightarrow> string \<Rightarrow> 'u \<Rightarrow> string option" where
  "inlineStyleAttributes env htmlContent baseURL =
     ReplaceAllStringFunc styleRe htmlContent (inlineStyleAttributes_repl env baseURL)"

text \<open>The provenance banner and \<^verbatim>\<open>(<body[^>]*>)\<close>.\<close>

definition page_icon :: string where
  "page_icon = [CHR 0xC3, CHR 0xB0, CHR 0xC5, CHR 0xB8, CHR 0xE2, CHR 0x80, CHR 0x9C,
                CHR 0xE2, CHR 0x80, CHR 0x9E]"

definition archiveHeader :: "string \<Rightarrow> string \<Rightarrow> string \<Rightarrow> string" where
  "archiveHeader baseURL t1 t2 =
     nl @ ''<!-- ARCHIVED PAGE - Original URL: '' @ baseURL @ '' - Archived: '' @ t1 @ '' -->''
     @ nl @ ''<div style='' @ dq
     @ ''background: #fff3cd; border: 1px solid #ffeaa7; padding: 10px; margin: 10px 0; border-radius: 4px; font-family: Arial, sans-serif;''
     @ dq @ ''>'' @ nl @ tab @ page_icon
     @ '' <strong>Archived Page</strong> - Original: <a href='' @ dq @ baseURL @ dq
     @ '' target='' @ dq @ ''_blank'' @ dq @ ''>'' @ baseURL @ ''</a> - Archived: '' @ t2 @ nl
     @ ''</div>'' @ nl"

definition bodyRe :: rx where
  "bodyRe = Grp (seqs [Lit ''<body'', Star no_gt, Lit ''>''])"

definition inlineAllResources ::
  "'u env \<Rightarrow> string \<Rightarrow> string \<Rightarrow> world \<Rightarrow> (string \<times> world) option" where
  "inlineAllResources env htmlContent baseURL w =
     (let (t1, w) = time_Now env w;
          (t2, w) = time_Now env w;
          header = archiveHeader baseURL (Format env t1 ''2006-01-02 15:04:05'')
                     (Format env t2 ''2006-01-02 15:04:05'')
      in case url_Parse env baseURL of
           None \<Rightarrow> Some (htmlContent, w)
         | Some baseURLParsed \<Rightarrow>
             do { htmlContent \<leftarrow> inlineCSS env htmlContent baseURLParsed;
                  htmlContent \<leftarrow> inlineJavaScript env htmlContent baseURLParsed;
                  htmlContent \<leftarrow> inlineImages env htmlContent baseURLParsed;
                  htmlContent \<leftarrow> Some (inlineWebFonts env htmlContent baseURLParsed);
                  htmlContent \<leftarrow> inlineStyleAttributes env htmlContent baseURLParsed;
                  Some (ReplaceAllString bodyRe htmlContent (''$1'' @ header), w) })"

section \<open>The archive writer and the trigger tokens\<close>

record ArchiveInfo =
  Title :: string
  FilePath :: string
  Timestamp :: time

datatype error =
    Invalid_URL
  | Download_Failed
  | HTTP_Error nat
  | Read_Failed
  | Mkdir_Failed
  | Save_Failed

text \<open>\<^verbatim>\<open><title[^>]*>([^<]*)</title>\<close>\<close>

definition titleRe :: rx where
  "titleRe = seqs [Lit ''<title'', Star no_gt, Lit ''>'', Grp (Star (None_of ''<'')),
     Lit ''</title>'']"

definition extractTitle :: "string \<Rightarrow> string \<Rightarrow> string" where
  "extractTitle htmlContent host =
     (let matches = FindStringSubmatch titleRe htmlContent in
      if length matches > 1 \<and> TrimSpace (matches ! 1) \<noteq> [] then TrimSpace (matches ! 1)
      else host)"

definition archiveWebsite ::
  "'u env \<Rightarrow> string \<Rightarrow> world \<Rightarrow> ((error + ArchiveInfo) \<times> world) option" where
  "archiveWebsite env websiteURL w =
     (case url_Parse env websiteURL of
        None \<Rightarrow> Some (Inl Invalid_URL, w)
      | Some parsedURL \<Rightarrow>
          (case http_Get env websiteURL of
             No_Answer \<Rightarrow> None
           | Failed \<Rightarrow> Some (Inl Download_Failed, w)
           | Answer resp \<Rightarrow>
               if StatusCode resp \<noteq> 200 then Some (Inl (HTTP_Error (StatusCode resp)), w)
               else
                 (case ReadAll resp of
                    None \<Rightarrow> Some (Inl Read_Failed, w)
                  | Some htmlContent \<Rightarrow>
                      (let title = extractTitle htmlContent (url_Host env parsedURL);
                           (timestamp, w) = time_Now env w;
                           filename = Format env timestamp ''2006_01_02_150405'' @ ''_''
                                      @ sanitizeFilename title @ ''-''
                                      @ sanitizeFilename (url_Host env parsedURL) @ ''.html'';
                           sitesDir = Join env [BasePath env, ''assets'', ''sites'']
                       in if \<not> MkdirAll_ok env sitesDir then Some (Inl Mkdir_Failed, w)
                          else
                            (let w = w\<lparr>dirs := sitesDir # dirs w\<rparr> in
                             do { (processedHTML, w) \<leftarrow>
                                    inlineAllResources env htmlContent websiteURL w;
                                  let filePath = Join env [sitesDir, filename] in
                                  if \<not> WriteFile_ok env filePath then Some (Inl Save_Failed, w)
                                  else
                                    (let w = w\<lparr>files := (filePath, processedHTML) # files w\<rparr>;
                                         relativePath = Join env [''assets'', ''sites'', filename]
                                     in Some (Inr \<lparr>Title = title, FilePath = relativePath,
                                                    Timestamp = timestamp\<rparr>, w)) })))))"

text \<open>
  \<^verbatim>\<open>\+https?://[^\s\)]+\<close> and \<^verbatim>\<open>processArchiveLinks\<close>.  The Go function also returns an
  error, which is nil on every path; the model returns the content and the new state.
\<close>

definition archiveRe :: rx where
  "archiveRe = seqs [Lit ''+http'', Opt (Lit ''s''), Lit ''://'',
     Plus (None_of (space_chars @ '')''))]"

fun processArchiveLinks_loop ::
  "'u env \<Rightarrow> string list \<Rightarrow> string \<Rightarrow> world \<Rightarrow> (string \<times> world) option" where
  "processArchiveLinks_loop env [] processedContent w = Some (processedContent, w)"
| "processArchiveLinks_loop env (match # matches) processedContent w =
     (let url = TrimPrefix match ''+'' in
      do { (r, w) \<leftarrow> archiveWebsite env url w;
           case r of
             Inl err \<Rightarrow> processArchiveLinks_loop env matches processedContent w
           | Inr archiveInfo \<Rightarrow>
               (let archiveLink = ''['' @ Title archiveInfo @ '']('' @ FilePath archiveInfo
                                  @ '') (archived ''
                                  @ Format env (Timestamp archiveInfo) ''2006-01-02 15:04''
                                  @ '')''
                in processArchiveLinks_loop env matches
                     (ReplaceFirst processedContent match archiveLink) w) })"

definition processArchiveLinks :: "'u env \<Rightarrow> string \<Rightarrow> world \<Rightarrow> (string \<times> world) option" where
  "processArchiveLinks env content w =
     (let matches = FindAllString archiveRe content in
      if length matches = 0 then Some (content, w)
      else processArchiveLinks_loop env matches content w)"

section \<open>Notions for stating the properties\<close>

text \<open>The extensions that \<^verbatim>\<open>processCSS\<close> takes for images and fonts.\<close>

definition media_exts :: "string list" where
  "media_exts = [''.png'', ''.jpg'', ''.jpeg'', ''.gif'', ''.svg'', ''.webp'',
                 ''.woff'', ''.woff2'', ''.ttf'', ''.otf'', ''.eot'']"

text \<open>
  A reference fails when it does not resolve, when the request for it fails, or when the
  answer has another status than 200, the only status the download functions accept.
\<close>

definition fetch_fails :: "'u env \<Rightarrow> 'u \<Rightarrow> string \<Rightarrow> bool" where
  "fetch_fails env baseURL ref =
     (let resolvedURL = resolveURL env baseURL ref in
      resolvedURL = []
      \<or> (case http_Get env resolvedURL of
            No_Answer \<Rightarrow> False
          | Failed \<Rightarrow> True
          | Answer resp \<Rightarrow> StatusCode resp \<noteq> 200))"

text \<open>
  The depth of an import graph, for stating when \<^verbatim>\<open>processCSS\<close> returns.  \<open>followed_import\<close>
  is the sheet and URL on which the callback of the \<^verbatim>\<open>@import\<close> pass calls \<^verbatim>\<open>processCSS\<close>
  again, \<open>None\<close> when it leaves the rule as it is; \<open>import_depth_within n\<close> says that no
  chain of followed imports from a sheet is longer than \<open>n\<close>.
\<close>

definition followed_import :: "'u env \<Rightarrow> 'u \<Rightarrow> string \<Rightarrow> (string \<times> string) option" where
  "followed_import env cssBaseURL match =
     (let importMatch = FindStringSubmatch importRe match in
      if length importMatch < 2 then None
      else
        (let importURL = resolveURL env cssBaseURL (importMatch ! 1) in
         if importURL = [] then None
         else (case downloadResource env importURL of
                 None \<Rightarrow> None
               | Some importedCSS \<Rightarrow>
                   if importedCSS = [] then None else Some (importedCSS, importURL))))"

fun import_depth_within :: "nat \<Rightarrow> 'u env \<Rightarrow> string \<Rightarrow> string \<Rightarrow> bool" where
  "import_depth_within 0 env cssContent cssURL =
     (case url_Parse env cssURL of
        None \<Rightarrow> True
      | Some cssBaseURL \<Rightarrow>
          list_all (\<lambda>match. followed_import env cssBaseURL match = None)
            (FindAllString importRe cssContent))"
| "import_depth_within (Suc n) env cssContent cssURL =
     (case url_Parse env cssURL of
        None \<Rightarrow> True
      | Some cssBaseURL \<Rightarrow>
          list_all (\<lambda>match. case followed_import env cssBaseURL match of
                               None \<Rightarrow> True
                             | Some (importedCSS, importURL) \<Rightarrow>
                                 import_depth_within n env importedCSS importURL)
            (FindAllString importRe cssContent))"

section \<open>Concrete sites\<close>

text \<open>
  Environments for worked examples.  URLs are absolute and kept as text, so a reference
  resolves to itself; the clock stands at Go's reference time, whose rendering in a layout
  is the layout itself; \<open>mime_table\<close> is a part of Go's table, which the examples do not
  consult, since every answer names its content type.
\<close>

definition host_of :: "string \<Rightarrow> string" where
  "host_of u = takeWhile (\<lambda>c. c \<noteq> CHR ''/'') (TrimPrefix (TrimPrefix u ''https://'') ''http://'')"

definition mime_table :: "string \<Rightarrow> string" where
  "mime_table ext =
     (if ext = ''.png'' then ''image/png''
      else if ext = ''.gif'' then ''image/gif''
      else if ext = ''.jpg'' then ''image/jpeg''
      else if ext = ''.css'' then ''text/css; charset=utf-8''
      else [])"

fun join_path :: "string list \<Rightarrow> string" where
  "join_path [] = []"
| "join_path [p] = p"
| "join_path (p # ps) = p @ ''/'' @ join_path ps"

definition web :: "(string \<Rightarrow> outcome) \<Rightarrow> string env" where
  "web get =
     \<lparr>http_Get = get, url_Parse = Some, url_ParseRef = (\<lambda>base ref. Some ref),
      url_String = (\<lambda>u. u), url_Host = host_of, TypeByExtension = mime_table,
      Format = (\<lambda>t layout. layout), Join = join_path, clock = (\<lambda>n. 0),
      BasePath = ''notes'', MkdirAll_ok = (\<lambda>d. True), WriteFile_ok = (\<lambda>f. True)\<rparr>"

definition page :: "nat \<Rightarrow> string \<Rightarrow> string \<Rightarrow> outcome" where
  "page code ctype content =
     Answer \<lparr>StatusCode = code, ContentType = ctype, Body = content, BodyFails = False\<rparr>"

definition w0 :: world where
  "w0 = \<lparr>ticks = 0, dirs = [], files = []\<rparr>"

text \<open>A page that answers with status 203, and one that is missing.\<close>

definition site_203 :: "string env" where
  "site_203 = web (\<lambda>u. if u = ''http://h/'' then page 203 ''text/html'' ''<title>T</title>hello''
                         else Failed)"

definition site_404 :: "string env" where
  "site_404 = web (\<lambda>u. page 404 ''text/html'' ''not found'')"

text \<open>A server that accepts the request and never answers.\<close>

definition site_silent :: "string env" where
  "site_silent = web (\<lambda>u. No_Answer)"


text \<open>A background image served from a URL without an extension.\<close>

definition site_bg :: "string env" where
  "site_bg = web (\<lambda>u. if u = ''http://h/bg'' then page 200 ''image/png'' ''Man'' else Failed)"

text \<open>A page that loads a script; the script writes a \<^verbatim>\<open><body>\<close> tag.\<close>

definition site_js :: "string env" where
  "site_js = web (\<lambda>u. if u = ''http://h/a.js''
                        then page 200 ''text/javascript'' (''document.write('' @ dq @ ''<body>'' @ dq @ '')'')
                        else Failed)"

text \<open>Two style sheets that import each other, and a chain of six imports.\<close>

definition import_rule :: "string \<Rightarrow> string" where
  "import_rule u = ''@import '' @ dq @ u @ dq @ '';''"

definition site_loop :: "string env" where
  "site_loop = web (\<lambda>u. if u = ''http://h/a.css'' then page 200 ''text/css'' (import_rule ''http://h/b.css'')
                          else if u = ''http://h/b.css'' then page 200 ''text/css'' (import_rule ''http://h/a.css'')
                          else Failed)"

definition site_chain :: "string env" where
  "site_chain =
     web (\<lambda>u. if u = ''http://h/1.css'' then page 200 ''text/css'' (import_rule ''http://h/2.css'')
               else if u = ''http://h/2.css'' then page 200 ''text/css'' (import_rule ''http://h/3.css'')
               else if u = ''http://h/3.css'' then page 200 ''text/css'' (import_rule ''http://h/4.css'')
               else if u = ''http://h/4.css'' then page 200 ''text/css'' (import_rule ''http://h/5.css'')
               else if u = ''http://h/5.css'' then page 200 ''text/css'' (import_rule ''http://h/6.css'')
               else if u = ''http://h/6.css'' then page 200 ''text/css'' ''p{}''
               else Failed)"

text \<open>
  A site with one page and nothing else, for two trigger tokens of which one is the start
  of the other; and an image tag whose \<^verbatim>\<open>src\<close> is a placeholder data URI, with the real
  image in \<^verbatim>\<open>data-src\<close>.
\<close>

definition site_tokens :: "string env" where
  "site_tokens = web (\<lambda>u. if u = ''http://h'' then page 200 ''text/html'' ''<title>T</title>hello''
                            else page 404 ''text/html'' ''not found'')"

definition site_lazy :: "string env" where
  "site_lazy = web (\<lambda>u. if u = ''http://h/a.png'' then page 200 ''image/png'' ''Man''
                          else page 404 ''text/html'' ''not found'')"

definition lazy_img :: string where
  "lazy_img = ''<img data-src='' @ dq @ ''http://h/a.png'' @ dq
              @ '' src='' @ dq @ ''data:image/gif;base64,R0lGODlhAQABAAAAACw='' @ dq @ ''>''"

text \<open>The same kind of tag with a missing image (status 404) in \<^verbatim>\<open>src\<close>.\<close>

definition missing_img :: string where
  "missing_img = ''<img data-src='' @ dq @ ''http://h/a.png'' @ dq
                 @ '' src='' @ dq @ ''http://h/missing.png'' @ dq @ ''>''"

text \<open>Facts for evaluating the model on concrete text.\<close>

lemmas rx_defs = urlRe_def importRe_def linkRe_def hrefRe_def scriptRe_def srcRe_def imgRe_def
  jsImgRe_def styleRe_def bodyRe_def titleRe_def archiveRe_def sanitizeRe_def
  quote_cls_def no_quote_def no_gt_def dq_def sq_def nl_def tab_def space_chars_def
  match_here_def HasPrefix_def TrimPrefix_def

lemmas download_defs = resolveURL_def downloadResource_def downloadAndEncodeImage_def
  ReadAllLimited_def ReadAll_def maxSize_def maxImageSize_def b64_digit_def b64_alphabet_def
  path_Ext_def ToLower_def Let_def

lemmas site_defs = web_def page_def host_of_def mime_table_def w0_def

lemmas inline_defs = inlineCSS_def inlineCSS_repl_def inlineJavaScript_def inlineJavaScript_repl_def
  inlineImages_def inlineImages_img_def inlineImages_js_def inlineWebFonts_def
  inlineStyleAttributes_def inlineStyleAttributes_repl_def processInlineCSS_def
  processInlineCSS_url_def processCSS_url_def

section \<open>Properties of the file names\<close>

lemma match_here_Plus:
  "match_here (Plus k) s =
     (if takeWhile (in_cls k) s = [] then None else Some (length (takeWhile (in_cls k) s), []))"
proof -
  let ?n = "length (takeWhile (in_cls k) s)"
  have le: "?n \<le> length s" by (rule length_takeWhile_le)
  show ?thesis
  proof (cases "?n")
    case 0
    then show ?thesis by (simp add: match_here_def)
  next
    case (Suc m)
    then have "rev [1 ..< Suc ?n] = ?n # rev [1 ..< ?n]" by simp
    moreover have "takeWhile (in_cls k) s \<noteq> []" using Suc by auto
    ultimately show ?thesis using Suc le by (simp add: match_here_def)
  qed
qed

lemma Trim_set: "set (Trim s c) \<subseteq> set s"
proof -
  have "set (dropWhile (\<lambda>x. x = c) (rev (dropWhile (\<lambda>x. x = c) s))) \<subseteq> set (dropWhile (\<lambda>x. x = c) s)"
    using set_dropWhileD by fastforce
  moreover have "set (dropWhile (\<lambda>x. x = c) s) \<subseteq> set s"
    using set_dropWhileD by fastforce
  ultimately show ?thesis unfolding Trim_def by simp
qed

lemma Trim_length: "length (Trim s c) \<le> length s"
  unfolding Trim_def
  by (metis length_dropWhile_le length_rev order_trans)

lemma dropWhile_eq_not_hd: "dropWhile (\<lambda>x. x = c) s \<noteq> c # t"
  by (induction s) auto

lemma Trim_not_suffix: "\<not> suffix [c] (Trim s c)"
proof
  assume "suffix [c] (Trim s c)"
  then obtain t where "Trim s c = t @ [c]" by (auto simp: suffix_def)
  then have "dropWhile (\<lambda>x. x = c) (rev (dropWhile (\<lambda>x. x = c) s)) = c # rev t"
    unfolding Trim_def by (metis rev_rev_ident rev_append rev.simps(2) rev.simps(1) append_Nil)
  then show False by (simp add: dropWhile_eq_not_hd)
qed

lemma Trim_not_prefix: "\<not> prefix [c] (Trim s c)"
proof
  assume "prefix [c] (Trim s c)"
  then obtain t where t: "Trim s c = c # t" by (auto simp: prefix_def)
  let ?d = "dropWhile (\<lambda>x. x = c) s"
  have "rev (dropWhile (\<lambda>x. x = c) (rev ?d)) = c # t" using t by (simp add: Trim_def)
  then have "dropWhile (\<lambda>x. x = c) (rev ?d) = rev t @ [c]"
    by (metis rev_rev_ident rev.simps(2))
  moreover have "suffix (dropWhile (\<lambda>x. x = c) (rev ?d)) (rev ?d)"
    by (rule suffix_dropWhile)
  ultimately have "suffix [c] (rev ?d)"
    by (metis suffix_order.order_trans suffixI)
  then have "prefix [c] ?d" by (metis suffix_to_prefix rev_rev_ident rev_singleton_conv)
  then show False using dropWhile_eq_not_hd [of c s] by (auto simp: prefix_def)
qed

lemma Expand_plain: "CHR ''$'' \<notin> set t \<Longrightarrow> Expand t m g = t"
  by (induction t) auto

lemma ReplaceAllString_Plus_clean:
  assumes "set repl \<inter> set cs = {}" and "CHR ''$'' \<notin> set repl"
  shows "set (ReplaceAllString (Plus (Any_of cs)) s repl) \<inter> set cs = {}"
  using assms
proof (induction "Plus (Any_of cs)" s repl rule: ReplaceAllString.induct)
  case (1 repl)
  then show ?case by simp
next
  case (2 x xs repl)
  show ?case
  proof (cases "in_cls (Any_of cs) x")
    case True
    then obtain n where n: "length (takeWhile (in_cls (Any_of cs)) (x # xs)) = Suc n" by simp
    then have m: "match_here (Plus (Any_of cs)) (x # xs) = Some (Suc n, [])"
      using True by (simp add: match_here_Plus del: in_cls.simps)
    show ?thesis using 2 m by (simp add: Expand_plain Int_Un_distrib2)
  next
    case False
    then have m: "match_here (Plus (Any_of cs)) (x # xs) = None"
      by (simp add: match_here_Plus)
    show ?thesis using 2 m False by simp
  qed
qed

text \<open>
  C5 (as the code has it).  \<^verbatim>\<open>sanitizeFilename\<close> removes a list of forbidden characters,
  it does not keep a list of allowed ones: for every input the result contains none of
  the characters \<^verbatim>\<open><>:"/\|?*\<close> and no white space, has at most 50 bytes, and neither
  starts nor ends with an underscore.
\<close>

theorem sanitizeFilename_shape:
  "set (sanitizeFilename s) \<inter> set invalid_chars = {}
   \<and> length (sanitizeFilename s) \<le> 50
   \<and> \<not> prefix ''_'' (sanitizeFilename s)
   \<and> \<not> suffix ''_'' (sanitizeFilename s)"
proof -
  let ?r = "ReplaceAllString sanitizeRe s ''_''"
  let ?t = "if length ?r > 50 then take 50 ?r else ?r"
  have eq: "sanitizeFilename s = Trim ?t (CHR ''_'')"
    by (simp add: sanitizeFilename_def Let_def)
  have "set ''_'' \<inter> set invalid_chars = {}"
    by (simp add: invalid_chars_def dq_def backslash_def space_chars_def)
  then have clean: "set ?r \<inter> set invalid_chars = {}"
    unfolding sanitizeRe_def by (intro ReplaceAllString_Plus_clean) simp_all
  have "set ?t \<subseteq> set ?r" by (auto dest: in_set_takeD)
  then have "set (Trim ?t (CHR ''_'')) \<subseteq> set ?r"
    using Trim_set [of ?t "CHR ''_''"] by blast
  then have 1: "set (sanitizeFilename s) \<inter> set invalid_chars = {}"
    using clean eq by auto
  have "length (Trim ?t (CHR ''_'')) \<le> length ?t" by (rule Trim_length)
  also have "length ?t \<le> 50" by simp
  finally have 2: "length (sanitizeFilename s) \<le> 50" unfolding eq .
  show ?thesis
    using 1 2 Trim_not_prefix [of "CHR ''_''" ?t] Trim_not_suffix [of "CHR ''_''" ?t] eq
    by simp
qed

text \<open>
  C5, counterexample.  A host name keeps its dots, which are outside \<^verbatim>\<open>[A-Za-z0-9_]\<close>.
\<close>

theorem sanitizeFilename_keeps_dot:
  "sanitizeFilename ''example.com'' = ''example.com'' \<and> CHR ''.'' \<notin> set word_chars"
  by code_simp

section \<open>The top-level fetch\<close>

text \<open>
  C4 (as the code has it).  The status check of \<^verbatim>\<open>archiveWebsite\<close> compares with 200 alone.
  When the URL parses and the request is answered, the job gets past the status check if
  and only if the status is 200; with any other status it returns the HTTP error and the
  state is as before, so that no directory is made and no file is written.
\<close>

theorem archiveWebsite_status:
  assumes "url_Parse env websiteURL = Some parsedURL"
    and "http_Get env websiteURL = Answer resp"
  shows "(StatusCode resp \<noteq> 200 \<longrightarrow>
            archiveWebsite env websiteURL w = Some (Inl (HTTP_Error (StatusCode resp)), w))
         \<and> (StatusCode resp = 200 \<longrightarrow>
              (\<forall>n w'. archiveWebsite env websiteURL w \<noteq> Some (Inl (HTTP_Error n), w')))"
  using assms
  by (auto simp: archiveWebsite_def Let_def split: option.splits prod.splits if_splits Option.bind_splits)

theorem archiveWebsite_status_witness:
  "archiveWebsite site_404 ''http://h/gone'' w0 = Some (Inl (HTTP_Error 404), w0)"
  using archiveWebsite_status [of site_404 "''http://h/gone''" "''http://h/gone''"
      "\<lparr>StatusCode = 404, ContentType = ''text/html'', Body = ''not found'', BodyFails = False\<rparr>" w0]
  by (simp add: site_404_def web_def page_def)

text \<open>
  C4, counterexample.  A page answered with status 203, which lies in 200--299, fails the
  job.
\<close>

theorem archiveWebsite_rejects_203:
  "archiveWebsite site_203 ''http://h/'' w0 = Some (Inl (HTTP_Error 203), w0)"
  by (simp add: archiveWebsite_def site_203_def web_def page_def)

section \<open>Downloads\<close>



text \<open>What the two download functions can return.\<close>

lemma ReadAllLimited_take: "ReadAllLimited n resp = Some c \<Longrightarrow> c = take n (Body resp)"
  by (auto simp: ReadAllLimited_def ReadAll_def split: if_splits)

lemma downloadResource_cases:
  assumes "downloadResource env u = Some content"
  shows "content = [] \<or> (\<exists>resp. http_Get env u = Answer resp \<and> content = take maxSize (Body resp))"
proof (cases "http_Get env u")
  case No_Answer
  then show ?thesis using assms by (simp add: downloadResource_def)
next
  case Failed
  then show ?thesis using assms by (simp add: downloadResource_def)
next
  case (Answer resp)
  then show ?thesis using assms
    by (auto simp: downloadResource_def dest: ReadAllLimited_take split: if_splits option.splits)
qed

lemma downloadAndEncodeImage_cases:
  assumes "downloadAndEncodeImage env u = Some dataURI"
  shows "dataURI = [] \<or> (\<exists>resp ct. http_Get env u = Answer resp
           \<and> dataURI = ''data:'' @ ct @ '';base64,'' @ EncodeToString (take maxImageSize (Body resp)))"
proof (cases "http_Get env u")
  case No_Answer
  then show ?thesis using assms by (simp add: downloadAndEncodeImage_def)
next
  case Failed
  then show ?thesis using assms by (simp add: downloadAndEncodeImage_def)
next
  case (Answer resp)
  show ?thesis
  proof (cases "StatusCode resp \<noteq> 200 \<or> ReadAllLimited maxImageSize resp = None")
    case True
    then show ?thesis using assms Answer
      by (auto simp: downloadAndEncodeImage_def Let_def split: if_splits)
  next
    case False
    then obtain d where d: "ReadAllLimited maxImageSize resp = Some d" by auto
    then have "d = take maxImageSize (Body resp)" by (rule ReadAllLimited_take)
    then show ?thesis using assms Answer False d
      by (auto simp: downloadAndEncodeImage_def Let_def)
  qed
qed

text \<open>
  C6 (as the code has it).  The bounded reader keeps the text of \<^verbatim>\<open>downloadResource\<close>
  within 5 MiB, where it is the prefix of the body of that length, and lets the data URI
  of \<^verbatim>\<open>downloadAndEncodeImage\<close> encode the prefix of at most 1 MiB of the body.  The
  requests go through \<^verbatim>\<open>http.Get\<close> without a timeout: when the server never answers,
  neither function returns.
\<close>

theorem download_size_caps:
  "(downloadResource env u = Some content \<longrightarrow>
      length content \<le> 5 * 1024 * 1024
      \<and> (content \<noteq> [] \<longrightarrow>
           (\<exists>resp. http_Get env u = Answer resp \<and> content = take (5 * 1024 * 1024) (Body resp))))
   \<and> (downloadAndEncodeImage env u = Some dataURI \<longrightarrow> dataURI \<noteq> [] \<longrightarrow>
        (\<exists>resp ct. http_Get env u = Answer resp
           \<and> dataURI = ''data:'' @ ct @ '';base64,''
                         @ EncodeToString (take (1024 * 1024) (Body resp))))
   \<and> (http_Get env u = No_Answer \<longrightarrow>
        downloadResource env u = None \<and> downloadAndEncodeImage env u = None)"
proof (intro conjI impI)
  assume a: "downloadResource env u = Some content"
  from downloadResource_cases [OF a]
  show "length content \<le> 5 * 1024 * 1024" by (auto simp: maxSize_def)
  assume "content \<noteq> []"
  with downloadResource_cases [OF a]
  show "\<exists>resp. http_Get env u = Answer resp \<and> content = take (5 * 1024 * 1024) (Body resp)"
    by (auto simp: maxSize_def)
next
  assume a: "downloadAndEncodeImage env u = Some dataURI" and "dataURI \<noteq> []"
  with downloadAndEncodeImage_cases [OF a]
  show "\<exists>resp ct. http_Get env u = Answer resp
           \<and> dataURI = ''data:'' @ ct @ '';base64,''
                         @ EncodeToString (take (1024 * 1024) (Body resp))"
    by (auto simp: maxImageSize_def)
next
  assume "http_Get env u = No_Answer"
  then show "downloadResource env u = None" by (simp add: downloadResource_def)
next
  assume "http_Get env u = No_Answer"
  then show "downloadAndEncodeImage env u = None" by (simp add: downloadAndEncodeImage_def)
qed

theorem download_size_caps_witness:
  "length ''p{}'' \<le> (5 * 1024 * 1024 :: nat)
   \<and> downloadResource (web (\<lambda>u. page 200 ''text/css'' ''p{}'')) ''http://h/a.css'' = Some ''p{}''"
  using download_size_caps [of "web (\<lambda>u. page 200 ''text/css'' ''p{}'')" "''http://h/a.css''" "''p{}''" "[]"]
  by (simp add: downloadResource_def ReadAllLimited_def ReadAll_def maxSize_def web_def page_def)


text \<open>
  C6, counterexample.  No timeout ends the request to a server that never answers.
\<close>

theorem silent_server_blocks_download:
  "downloadResource site_silent ''http://h/a.css'' = None"
  by (simp add: downloadResource_def site_silent_def web_def)

section \<open>Scanning with a pattern\<close>

lemma match_here_le: "match_here r s = Some (n, g) \<Longrightarrow> n \<le> length s"
  by (auto simp: match_here_def split: list.splits)

lemma ReplaceAllStringFunc_cong_matches:
  "(\<And>m. m \<in> set (FindAllString r s) \<Longrightarrow> f m = f' m) \<Longrightarrow>
   ReplaceAllStringFunc r s f = ReplaceAllStringFunc r s f'"
proof (induction r s rule: FindAllString.induct)
  case (1 r)
  then show ?case by simp
next
  case (2 r x xs)
  show ?case
  proof (cases "match_here r (x # xs)")
    case None
    then show ?thesis using 2 by simp
  next
    case (Some a)
    obtain k g where a: "a = (k, g)" by (cases a)
    show ?thesis
    proof (cases k)
      case 0
      then show ?thesis using 2 Some a by simp
    next
      case (Suc n)
      have "f (x # take n xs) = f' (x # take n xs)"
        using 2(4) Some a Suc by simp
      moreover have "ReplaceAllStringFunc r (drop n xs) f = ReplaceAllStringFunc r (drop n xs) f'"
        using 2 Some a Suc by simp
      ultimately show ?thesis using Some a Suc by simp
    qed
  qed
qed

lemma ReplaceAllStringFunc_unchanged:
  "(\<And>m. m \<in> set (FindAllString r s) \<Longrightarrow> f m = Some m) \<Longrightarrow>
   ReplaceAllStringFunc r s f = Some s"
proof (induction r s rule: FindAllString.induct)
  case (1 r)
  then show ?case by simp
next
  case (2 r x xs)
  show ?case
  proof (cases "match_here r (x # xs)")
    case None
    then show ?thesis using 2 by simp
  next
    case (Some a)
    obtain k g where a: "a = (k, g)" by (cases a)
    show ?thesis
    proof (cases k)
      case 0
      then show ?thesis using 2 Some a by simp
    next
      case (Suc n)
      have "f (x # take n xs) = Some (x # take n xs)"
        using 2(4) Some a Suc by simp
      moreover have "ReplaceAllStringFunc r (drop n xs) f = Some (drop n xs)"
        using 2 Some a Suc by simp
      ultimately show ?thesis using Some a Suc by simp
    qed
  qed
qed

lemma ReplaceAllStringFunc_returns:
  "(\<And>m. m \<in> set (FindAllString r s) \<Longrightarrow> f m \<noteq> None) \<Longrightarrow>
   ReplaceAllStringFunc r s f \<noteq> None"
proof (induction r s rule: FindAllString.induct)
  case (1 r)
  then show ?case by simp
next
  case (2 r x xs)
  show ?case
  proof (cases "match_here r (x # xs)")
    case None
    then have "ReplaceAllStringFunc r xs f \<noteq> None" using 2 by simp
    then show ?thesis using None by auto
  next
    case (Some a)
    obtain k g where a: "a = (k, g)" by (cases a)
    show ?thesis
    proof (cases k)
      case 0
      then have "ReplaceAllStringFunc r xs f \<noteq> None" using 2 Some a by simp
      then show ?thesis using 0 Some a by auto
    next
      case (Suc n)
      have "f (x # take n xs) \<noteq> None"
        using 2(4) Some a Suc by simp
      moreover have "ReplaceAllStringFunc r (drop n xs) f \<noteq> None"
        using 2 Some a Suc by simp
      ultimately show ?thesis using Some a Suc by auto
    qed
  qed
qed


section \<open>The two \<^verbatim>\<open>url()\<close> rewritings\<close>

lemma url_callbacks_agree:
  assumes "length (FindStringSubmatch urlRe m) \<ge> 2 \<longrightarrow>
           ToLower (path_Ext (FindStringSubmatch urlRe m ! 1)) \<in> set media_exts"
  shows "processCSS_url env b m = processInlineCSS_url env b m"
  using assms
  by (auto simp: processCSS_url_def processInlineCSS_url_def Let_def media_exts_def)

text \<open>
  C8 (as the code has it).  \<^verbatim>\<open>processInlineCSS\<close> and the \<^verbatim>\<open>url()\<close> pass of \<^verbatim>\<open>processCSS\<close> use
  the same pattern and skip the same references, but only \<^verbatim>\<open>processCSS\<close> asks for an image
  or font extension, and only it expands \<^verbatim>\<open>@import\<close> rules.  On CSS text without an
  \<^verbatim>\<open>@import\<close> rule in which every \<^verbatim>\<open>url()\<close> target has an image or font extension the two
  functions give the same result.
\<close>

theorem url_rewriting_agrees_on_media:
  assumes "FindAllString importRe cssContent = []"
    and "\<forall>m \<in> set (FindAllString urlRe cssContent).
           ToLower (path_Ext (FindStringSubmatch urlRe m ! 1)) \<in> set media_exts"
  shows "processCSS env cssContent baseURL = processInlineCSS env cssContent baseURL"
proof (cases "url_Parse env baseURL")
  case None
  then show ?thesis
    by (subst processCSS.simps) (simp add: processInlineCSS_def)
next
  case (Some b)
  have imp: "ReplaceAllStringFunc importRe cssContent f = Some cssContent" for f
    using assms(1) by (intro ReplaceAllStringFunc_unchanged) simp
  have "ReplaceAllStringFunc urlRe cssContent (processCSS_url env b)
        = ReplaceAllStringFunc urlRe cssContent (processInlineCSS_url env b)"
    using assms(2) by (intro ReplaceAllStringFunc_cong_matches url_callbacks_agree) simp
  then show ?thesis
    using Some imp by (subst processCSS.simps) (simp add: processInlineCSS_def)
qed


theorem url_rewriting_agrees_on_media_witness:
  "processCSS site_bg ''background:url(http://h/bg.png)'' ''http://h/''
     = processInlineCSS site_bg ''background:url(http://h/bg.png)'' ''http://h/''"
  using url_rewriting_agrees_on_media [of "''background:url(http://h/bg.png)''" site_bg "''http://h/''"]
  by (simp add: rx_defs media_exts_def path_Ext_def ToLower_def)

text \<open>
  C8, counterexample.  A target without an extension is converted in a \<^verbatim>\<open>style\<close>
  attribute and left as it is in a style sheet.
\<close>

theorem url_rewriting_differs_without_extension:
  "processCSS site_bg ''background:url(http://h/bg)'' ''http://h/''
     = Some ''background:url(http://h/bg)''
   \<and> processInlineCSS site_bg ''background:url(http://h/bg)'' ''http://h/''
     = Some (''background:url('' @ dq @ ''data:image/png;base64,TWFu'' @ dq @ '')'')"
proof
  show "processCSS site_bg ''background:url(http://h/bg)'' ''http://h/''
          = Some ''background:url(http://h/bg)''"
    by (subst processCSS.simps)
       (simp add: processCSS_url_def site_bg_def site_defs rx_defs download_defs)
  show "processInlineCSS site_bg ''background:url(http://h/bg)'' ''http://h/''
          = Some (''background:url('' @ dq @ ''data:image/png;base64,TWFu'' @ dq @ '')'')"
    by (simp add: processInlineCSS_def processInlineCSS_url_def site_bg_def site_defs rx_defs
        download_defs)
qed

section \<open>The provenance banner\<close>

lemma bodyRe_needs_tag: "match_here bodyRe s \<noteq> None \<Longrightarrow> prefix ''<body'' s"
  by (auto simp: match_here_def bodyRe_def split: if_splits list.splits)

lemma ReplaceAllString_no_body: "\<not> sublist ''<body'' s \<Longrightarrow> ReplaceAllString bodyRe s repl = s"
proof (induction s)
  case Nil
  then show ?case by simp
next
  case (Cons x xs)
  have "\<not> prefix ''<body'' (x # xs)" using Cons.prems by (auto simp: sublist_Cons_right)
  then have "match_here bodyRe (x # xs) = None" using bodyRe_needs_tag by blast
  moreover have "\<not> sublist ''<body'' xs" using Cons.prems by (auto simp: sublist_Cons_right)
  ultimately show ?case using Cons.IH by simp
qed

lemma takeWhile_no_gt: "CHR ''>'' \<notin> set attrs \<Longrightarrow> takeWhile (in_cls no_gt) (attrs @ CHR ''>'' # rest) = attrs"
  by (induction attrs) (auto simp: no_gt_def)

lemma match_here_first:
  "rx_run r (None, t @ rest) = (c, rest) # others \<Longrightarrow>
   match_here r (t @ rest) = Some (length t, case c of None \<Rightarrow> [] | Some g \<Rightarrow> g)"
  by (simp add: match_here_def)

lemma rx_run_Grp_first:
  "rx_run r (c, t @ rest) = (c', rest) # others \<Longrightarrow>
   \<exists>others'. rx_run (Grp r) (c, t @ rest) = (Some t, rest) # others'"
  by simp

lemma rx_run_Lit_Seq: "rx_run (Seq (Lit l) r) (c, l @ t) = rx_run r (c, t)"
  by simp

lemma rx_run_attrs:
  assumes "CHR ''>'' \<notin> set attrs"
  shows "\<exists>others. rx_run (Seq (Star no_gt) (Lit ''>'')) (c, attrs @ ''>'' @ rest) = (c, rest) # others"
  using assms by (simp add: takeWhile_no_gt)

lemma match_here_body_tag:
  assumes "CHR ''>'' \<notin> set attrs"
  shows "match_here bodyRe (''<body'' @ attrs @ ''>'' @ rest)
         = Some (length (''<body'' @ attrs @ ''>''), ''<body'' @ attrs @ ''>'')"
proof -
  let ?inner = "Seq (Lit ''<body'') (Seq (Star no_gt) (Lit ''>''))"
  obtain others where "rx_run (Seq (Star no_gt) (Lit ''>'')) (None, attrs @ ''>'' @ rest) = (None, rest) # others"
    using rx_run_attrs [OF assms] by blast
  then have "rx_run ?inner (None, ''<body'' @ attrs @ ''>'' @ rest) = (None, rest) # others"
    by (simp only: rx_run_Lit_Seq)
  then have "rx_run ?inner (None, (''<body'' @ attrs @ ''>'') @ rest) = (None, rest) # others"
    by (simp only: append_assoc)
  then obtain others' where
    "rx_run (Grp ?inner) (None, (''<body'' @ attrs @ ''>'') @ rest) = (Some (''<body'' @ attrs @ ''>''), rest) # others'"
    using rx_run_Grp_first by blast
  then have "match_here (Grp ?inner) ((''<body'' @ attrs @ ''>'') @ rest)
             = Some (length (''<body'' @ attrs @ ''>''), ''<body'' @ attrs @ ''>'')"
    by (drule_tac match_here_first) simp
  then show ?thesis by (simp add: bodyRe_def)
qed

lemma no_body_across:
  assumes "\<not> sublist ''<body'' pre" and "pre \<noteq> []"
  shows "\<not> prefix ''<body'' (pre @ ''<body'' @ others)"
proof
  assume "prefix ''<body'' (pre @ ''<body'' @ others)"
  then have "prefix ''<body'' pre \<or> (\<exists>us. ''<body'' = pre @ us \<and> prefix us (''<body'' @ others))"
    by (simp only: prefix_append)
  then consider "prefix ''<body'' pre" | us where "''<body'' = pre @ us" "prefix us (''<body'' @ others)"
    by blast
  then show False
  proof cases
    case 1
    then show ?thesis using assms(1) by (auto simp: prefix_def)
  next
    case 2
    then show ?thesis using assms
      by (auto simp: append_eq_Cons_conv Cons_eq_append_conv)
  qed
qed

lemma ReplaceAllString_body_step:
  assumes "\<not> sublist ''<body'' pre" and "CHR ''>'' \<notin> set attrs"
  shows "ReplaceAllString bodyRe (pre @ ''<body'' @ attrs @ ''>'' @ rest) repl
         = pre @ Expand repl (''<body'' @ attrs @ ''>'') (''<body'' @ attrs @ ''>'')
               @ ReplaceAllString bodyRe rest repl"
  using assms(1)
proof (induction pre)
  case Nil
  have "match_here bodyRe (''<body'' @ attrs @ ''>'' @ rest)
         = Some (length (''<body'' @ attrs @ ''>''), ''<body'' @ attrs @ ''>'')"
    by (rule match_here_body_tag [OF assms(2)])
  then show ?case by simp
next
  case (Cons x xs)
  have "\<not> prefix ''<body'' ((x # xs) @ ''<body'' @ (attrs @ ''>'' @ rest))"
    by (rule no_body_across [OF Cons.prems]) simp
  then have "match_here bodyRe (x # xs @ ''<body'' @ attrs @ ''>'' @ rest) = None"
    using bodyRe_needs_tag by fastforce
  moreover have "\<not> sublist ''<body'' xs" using Cons.prems by (auto simp: sublist_Cons_right)
  ultimately show ?case using Cons.IH by simp
qed

lemma Expand_group_header:
  assumes "CHR ''$'' \<notin> set (archiveHeader u t1 t2)"
  shows "Expand (''$1'' @ archiveHeader u t1 t2) m g = g @ archiveHeader u t1 t2"
proof -
  obtain h where h: "archiveHeader u t1 t2 = CHR 0x0A # h"
    by (simp add: archiveHeader_def nl_def)
  have "extract_name (''1'' @ CHR 0x0A # h) = Some (''1'', CHR 0x0A # h)"
    by (simp add: extract_name_def is_name_char_def)
  moreover have "Expand (CHR 0x0A # h) m g = CHR 0x0A # h"
    using assms h by (intro Expand_plain) simp
  ultimately show ?thesis using h by (simp add: group_value_def)
qed


text \<open>
  C10 (as the code has it).  The banner is put behind every match of \<^verbatim>\<open><body[^>]*>\<close> in the
  document as it is after the inlining passes, which includes the text of inlined scripts
  and style sheets.  For a base URL that parses, and a banner without a dollar sign: the
  result of \<^verbatim>\<open>inlineAllResources\<close> is the scan of the inlined document; the scan leaves a
  text without \<^verbatim>\<open><body\<close> as it is; and it puts the banner right behind the first body tag
  and goes on in the same way behind it.
\<close>

theorem banner_after_inlined_body_tags:
  assumes parse: "url_Parse env baseURL = Some b"
    and passes: "do { h \<leftarrow> inlineCSS env html b;
                      h \<leftarrow> inlineJavaScript env h b;
                      h \<leftarrow> inlineImages env h b;
                      inlineStyleAttributes env h b } = Some inlined"
    and header: "header = archiveHeader baseURL
                   (Format env (clock env (ticks w)) ''2006-01-02 15:04:05'')
                   (Format env (clock env (Suc (ticks w))) ''2006-01-02 15:04:05'')"
    and plain: "CHR ''$'' \<notin> set header"
  shows "map_option fst (inlineAllResources env html baseURL w)
           = Some (ReplaceAllString bodyRe inlined (''$1'' @ header))
         \<and> (\<forall>s. \<not> sublist ''<body'' s \<longrightarrow> ReplaceAllString bodyRe s (''$1'' @ header) = s)
         \<and> (\<forall>pre attrs rest. \<not> sublist ''<body'' pre \<and> CHR ''>'' \<notin> set attrs \<longrightarrow>
                ReplaceAllString bodyRe (pre @ ''<body'' @ attrs @ ''>'' @ rest) (''$1'' @ header)
                = pre @ ''<body'' @ attrs @ ''>'' @ header
                  @ ReplaceAllString bodyRe rest (''$1'' @ header))"
proof (intro conjI allI impI)
  obtain h1 h2 h3 where p: "inlineCSS env html b = Some h1" "inlineJavaScript env h1 b = Some h2"
    "inlineImages env h2 b = Some h3" "inlineStyleAttributes env h3 b = Some inlined"
    using passes by (auto split: Option.bind_splits)
  show "map_option fst (inlineAllResources env html baseURL w)
          = Some (ReplaceAllString bodyRe inlined (''$1'' @ header))"
    using parse p header
    by (simp add: inlineAllResources_def time_Now_def inlineWebFonts_def)
next
  fix s assume "\<not> sublist ''<body'' s"
  then show "ReplaceAllString bodyRe s (''$1'' @ header) = s"
    by (rule ReplaceAllString_no_body)
next
  fix pre attrs rest
  assume a: "\<not> sublist ''<body'' pre \<and> CHR ''>'' \<notin> set attrs"
  have e: "Expand (''$1'' @ header) (''<body'' @ attrs @ ''>'') (''<body'' @ attrs @ ''>'')
        = (''<body'' @ attrs @ ''>'') @ header"
    using plain unfolding header by (rule Expand_group_header)
  have "ReplaceAllString bodyRe (pre @ ''<body'' @ attrs @ ''>'' @ rest) (''$1'' @ header)
        = pre @ Expand (''$1'' @ header) (''<body'' @ attrs @ ''>'') (''<body'' @ attrs @ ''>'')
              @ ReplaceAllString bodyRe rest (''$1'' @ header)"
    using a by (intro ReplaceAllString_body_step) simp_all
  then show "ReplaceAllString bodyRe (pre @ ''<body'' @ attrs @ ''>'' @ rest) (''$1'' @ header)
             = pre @ ''<body'' @ attrs @ ''>'' @ header
               @ ReplaceAllString bodyRe rest (''$1'' @ header)"
    by (simp only: e append_assoc)
qed

theorem banner_after_inlined_body_tags_witness:
  "map_option fst (inlineAllResources (web (\<lambda>u. Failed)) ''<body>hi'' ''http://h/'' w0)
     = Some (''<body>'' @ archiveHeader ''http://h/'' ''2006-01-02 15:04:05'' ''2006-01-02 15:04:05''
             @ ''hi'')"
proof -
  let ?e = "web (\<lambda>u. Failed) :: string env"
  let ?h = "archiveHeader ''http://h/'' ''2006-01-02 15:04:05'' ''2006-01-02 15:04:05''"
  have a: "url_Parse ?e ''http://h/'' = Some ''http://h/''" by (simp add: web_def)
  have b: "do { h \<leftarrow> inlineCSS ?e ''<body>hi'' ''http://h/'';
                h \<leftarrow> inlineJavaScript ?e h ''http://h/'';
                h \<leftarrow> inlineImages ?e h ''http://h/'';
                inlineStyleAttributes ?e h ''http://h/'' } = Some ''<body>hi''"
    by (simp add: inline_defs rx_defs)
  have c: "?h = archiveHeader ''http://h/''
                   (Format ?e (clock ?e (ticks w0)) ''2006-01-02 15:04:05'')
                   (Format ?e (clock ?e (Suc (ticks w0))) ''2006-01-02 15:04:05'')"
    by (simp add: web_def)
  have d: "CHR ''$'' \<notin> set ?h"
    by (simp add: archiveHeader_def page_icon_def dq_def nl_def tab_def)
  note t = banner_after_inlined_body_tags [OF a b c d]
  have "ReplaceAllString bodyRe ([] @ ''<body'' @ [] @ ''>'' @ ''hi'') (''$1'' @ ?h)
        = [] @ ''<body'' @ [] @ ''>'' @ ?h @ ReplaceAllString bodyRe ''hi'' (''$1'' @ ?h)"
    using t by (intro t [THEN conjunct2, THEN conjunct2, rule_format]) simp
  moreover have "ReplaceAllString bodyRe ''hi'' (''$1'' @ ?h) = ''hi''"
    by (intro t [THEN conjunct2, THEN conjunct1, rule_format]) (simp add: sublist_Cons_right)
  ultimately show ?thesis using t by simp
qed

text \<open>
  C10, counterexample.  The page has no body tag, the script it loads contains the text
  \<^verbatim>\<open><body>\<close>, and the archived page has the banner inside the inlined script.
\<close>

theorem banner_inside_inlined_script:
  "\<not> sublist ''<body'' (''<script src='' @ dq @ ''http://h/a.js'' @ dq @ ''></script>'')
   \<and> map_option fst (inlineAllResources site_js
          (''<script src='' @ dq @ ''http://h/a.js'' @ dq @ ''></script>'') ''http://h/'' w0)
     = Some (''<script type='' @ dq @ ''text/javascript'' @ dq @ ''>'' @ nl
             @ ''/* Inlined from: http://h/a.js */'' @ nl
             @ ''document.write('' @ dq @ ''<body>''
             @ archiveHeader ''http://h/'' ''2006-01-02 15:04:05'' ''2006-01-02 15:04:05''
             @ dq @ '')'' @ nl @ ''</script>'')"
proof -
  have "CHR ''$'' \<notin> set (archiveHeader ''http://h/'' ''2006-01-02 15:04:05'' ''2006-01-02 15:04:05'')"
    by (simp add: archiveHeader_def page_icon_def dq_def nl_def tab_def)
  then have e: "Expand (''$1'' @ archiveHeader ''http://h/'' ''2006-01-02 15:04:05'' ''2006-01-02 15:04:05'') m g
             = g @ archiveHeader ''http://h/'' ''2006-01-02 15:04:05'' ''2006-01-02 15:04:05''" for m g
    by (rule Expand_group_header)
  have e': "Expand (CHR ''$'' # CHR ''1'' # archiveHeader ''http://h/'' ''2006-01-02 15:04:05'' ''2006-01-02 15:04:05'') m g
             = g @ archiveHeader ''http://h/'' ''2006-01-02 15:04:05'' ''2006-01-02 15:04:05''" for m g
    using e [of m g] by (simp del: Expand.simps)
  show ?thesis
    by (simp add: inlineAllResources_def time_Now_def inline_defs site_js_def site_defs rx_defs
        download_defs sublist_Cons_right e' del: Expand.simps)
qed

section \<open>The recursion of the CSS processor\<close>

lemma downloadResource_answers: "http_Get env u \<noteq> No_Answer \<Longrightarrow> downloadResource env u \<noteq> None"
  by (auto simp: downloadResource_def split: outcome.splits option.splits)

lemma downloadAndEncodeImage_answers:
  "http_Get env u \<noteq> No_Answer \<Longrightarrow> downloadAndEncodeImage env u \<noteq> None"
  by (auto simp: downloadAndEncodeImage_def Let_def split: outcome.splits option.splits)

lemma processCSS_url_returns:
  assumes "\<forall>u. http_Get env u \<noteq> No_Answer"
  shows "processCSS_url env b m \<noteq> None"
proof -
  let ?u = "resolveURL env b (FindStringSubmatch urlRe m ! 1)"
  obtain d where "downloadAndEncodeImage env ?u = Some d"
    using assms downloadAndEncodeImage_answers [of env ?u] by auto
  then show ?thesis
    by (simp add: processCSS_url_def Let_def)
qed

lemma processCSS_returns_step:
  assumes answers: "\<forall>u. http_Get env u \<noteq> No_Answer"
    and parse: "url_Parse env cssURL = Some b"
    and inner: "\<And>m importedCSS importURL.
                  m \<in> set (FindAllString importRe cssContent) \<Longrightarrow>
                  followed_import env b m = Some (importedCSS, importURL) \<Longrightarrow>
                  \<exists>out. processCSS env importedCSS importURL = Some out"
  shows "\<exists>out. processCSS env cssContent cssURL = Some out"
proof -
  let ?cb = "\<lambda>match.
                      let importMatch = FindStringSubmatch importRe match in
                      if length importMatch < 2 then Some match
                      else
                        (let importURL = resolveURL env b (importMatch ! 1) in
                         if importURL = [] then Some match
                         else
                           do { importedCSS \<leftarrow> downloadResource env importURL;
                                if importedCSS = [] then Some match
                                else
                                  do { inner \<leftarrow> processCSS env importedCSS importURL;
                                       Some (''/* Imported from: '' @ importURL @ '' */'' @ nl
                                             @ inner) } })"
  have "?cb m \<noteq> None" if m: "m \<in> set (FindAllString importRe cssContent)" for m
  proof -
    let ?u = "resolveURL env b (FindStringSubmatch importRe m ! 1)"
    obtain d where d: "downloadResource env ?u = Some d"
      using answers downloadResource_answers [of env ?u] by auto
    show ?thesis
    proof (cases "followed_import env b m")
      case None
      then show ?thesis using d
        by (auto simp: followed_import_def Let_def split: if_splits)
    next
      case (Some a)
      obtain importedCSS importURL where a: "a = (importedCSS, importURL)" by (cases a)
      obtain out where "processCSS env importedCSS importURL = Some out"
        using inner [OF m] Some a by blast
      then show ?thesis using Some a d
        by (auto simp: followed_import_def Let_def split: if_splits)
    qed
  qed
  then have "ReplaceAllStringFunc importRe cssContent ?cb \<noteq> None"
    by (rule ReplaceAllStringFunc_returns)
  then obtain c1 where c1: "ReplaceAllStringFunc importRe cssContent ?cb = Some c1" by auto
  have "ReplaceAllStringFunc urlRe c1 (processCSS_url env b) \<noteq> None"
    by (intro ReplaceAllStringFunc_returns processCSS_url_returns answers)
  then show ?thesis
    using parse c1 by (subst processCSS.simps) auto
qed

text \<open>
  When every request is answered and no chain of followed imports from the sheet is longer
  than \<open>n\<close>, the expansion returns.
\<close>

lemma processCSS_returns_on_bounded_imports:
  assumes "\<forall>u. http_Get env u \<noteq> No_Answer"
    and "import_depth_within n env cssContent cssURL"
  shows "\<exists>out. processCSS env cssContent cssURL = Some out"
  using assms(2)
proof (induction n arbitrary: cssContent cssURL)
  case 0
  show ?case
  proof (cases "url_Parse env cssURL")
    case None
    then show ?thesis by (subst processCSS.simps) simp
  next
    case (Some b)
    show ?thesis
    proof (rule processCSS_returns_step [OF assms(1) Some])
      fix m importedCSS importURL
      assume "m \<in> set (FindAllString importRe cssContent)"
        and "followed_import env b m = Some (importedCSS, importURL)"
      then show "\<exists>out. processCSS env importedCSS importURL = Some out"
        using 0 Some by (auto simp: list_all_iff)
    qed
  qed
next
  case (Suc n)
  show ?case
  proof (cases "url_Parse env cssURL")
    case None
    then show ?thesis by (subst processCSS.simps) simp
  next
    case (Some b)
    show ?thesis
    proof (rule processCSS_returns_step [OF assms(1) Some])
      fix m importedCSS importURL
      assume "m \<in> set (FindAllString importRe cssContent)"
        and "followed_import env b m = Some (importedCSS, importURL)"
      then have "import_depth_within n env importedCSS importURL"
        using Suc.prems Some by (auto simp: list_all_iff)
      then show "\<exists>out. processCSS env importedCSS importURL = Some out"
        by (rule Suc.IH)
    qed
  qed
qed

lemma import_depth_step_iff:
  "url_Parse env cssURL = Some b \<Longrightarrow> FindAllString importRe cssContent = [m] \<Longrightarrow>
   followed_import env b m = Some (importedCSS, importURL) \<Longrightarrow>
   import_depth_within (Suc n) env cssContent cssURL
   = import_depth_within n env importedCSS importURL"
  by simp

lemma chain_link_0:
  "import_depth_within (Suc n) site_chain (import_rule ''http://h/1.css'') ''http://h/0.css''
   = import_depth_within n site_chain (import_rule ''http://h/2.css'') ''http://h/1.css''"
  by (rule import_depth_step_iff [where b = "''http://h/0.css''" and m = "import_rule ''http://h/1.css''"])
     (simp_all add: followed_import_def import_rule_def site_chain_def site_defs rx_defs download_defs)

lemma chain_link_1:
  "import_depth_within (Suc n) site_chain (import_rule ''http://h/2.css'') ''http://h/1.css''
   = import_depth_within n site_chain (import_rule ''http://h/3.css'') ''http://h/2.css''"
  by (rule import_depth_step_iff [where b = "''http://h/1.css''" and m = "import_rule ''http://h/2.css''"])
     (simp_all add: followed_import_def import_rule_def site_chain_def site_defs rx_defs download_defs)

lemma chain_link_2:
  "import_depth_within (Suc n) site_chain (import_rule ''http://h/3.css'') ''http://h/2.css''
   = import_depth_within n site_chain (import_rule ''http://h/4.css'') ''http://h/3.css''"
  by (rule import_depth_step_iff [where b = "''http://h/2.css''" and m = "import_rule ''http://h/3.css''"])
     (simp_all add: followed_import_def import_rule_def site_chain_def site_defs rx_defs download_defs)

lemma chain_link_3:
  "import_depth_within (Suc n) site_chain (import_rule ''http://h/4.css'') ''http://h/3.css''
   = import_depth_within n site_chain (import_rule ''http://h/5.css'') ''http://h/4.css''"
  by (rule import_depth_step_iff [where b = "''http://h/3.css''" and m = "import_rule ''http://h/4.css''"])
     (simp_all add: followed_import_def import_rule_def site_chain_def site_defs rx_defs download_defs)

lemma chain_link_4:
  "import_depth_within (Suc n) site_chain (import_rule ''http://h/5.css'') ''http://h/4.css''
   = import_depth_within n site_chain (import_rule ''http://h/6.css'') ''http://h/5.css''"
  by (rule import_depth_step_iff [where b = "''http://h/4.css''" and m = "import_rule ''http://h/5.css''"])
     (simp_all add: followed_import_def import_rule_def site_chain_def site_defs rx_defs download_defs)

lemma chain_link_5:
  "import_depth_within (Suc n) site_chain (import_rule ''http://h/6.css'') ''http://h/5.css''
   = import_depth_within n site_chain (''p{}'') ''http://h/6.css''"
  by (rule import_depth_step_iff [where b = "''http://h/5.css''" and m = "import_rule ''http://h/6.css''"])
     (simp_all add: followed_import_def import_rule_def site_chain_def site_defs rx_defs download_defs)

lemma chain_depth:
  "import_depth_within 6 site_chain (import_rule ''http://h/1.css'') ''http://h/0.css''
   \<and> \<not> import_depth_within 5 site_chain (import_rule ''http://h/1.css'') ''http://h/0.css''"
proof
  have six: "(6::nat) = Suc (Suc (Suc (Suc (Suc (Suc 0)))))"
    and five: "(5::nat) = Suc (Suc (Suc (Suc (Suc 0))))" by simp_all
  have "import_depth_within 0 site_chain ''p{}'' ''http://h/6.css''"
    by (simp add: site_chain_def site_defs rx_defs)
  then show "import_depth_within 6 site_chain (import_rule ''http://h/1.css'') ''http://h/0.css''"
    unfolding six chain_link_0 chain_link_1 chain_link_2 chain_link_3 chain_link_4 chain_link_5 .
  have "\<not> import_depth_within 0 site_chain (import_rule ''http://h/6.css'') ''http://h/5.css''"
    by (simp add: followed_import_def import_rule_def site_chain_def site_defs rx_defs download_defs)
  then show "\<not> import_depth_within 5 site_chain (import_rule ''http://h/1.css'') ''http://h/0.css''"
    unfolding five chain_link_0 chain_link_1 chain_link_2 chain_link_3 chain_link_4 .
qed

text \<open>The chain is expanded in full: the rule at depth six is replaced like the others.\<close>

lemma chain_expanded_6: "processCSS site_chain ''p{}'' ''http://h/6.css'' = Some ''p{}''"
  by (subst processCSS.simps)
     (simp add: site_chain_def site_defs rx_defs download_defs)

lemma chain_expanded_5:
  "processCSS site_chain (import_rule ''http://h/6.css'') ''http://h/5.css''
   = Some (''/* Imported from: http://h/6.css */'' @ nl @ ''p{}'')"
  using chain_expanded_6
  by (subst processCSS.simps)
     (simp add: import_rule_def site_chain_def site_defs rx_defs download_defs)

lemma chain_expanded_4:
  "processCSS site_chain (import_rule ''http://h/5.css'') ''http://h/4.css''
   = Some (''/* Imported from: http://h/5.css */'' @ nl @ ''/* Imported from: http://h/6.css */'' @ nl @ ''p{}'')"
  using chain_expanded_5
  by (subst processCSS.simps)
     (simp add: import_rule_def site_chain_def site_defs rx_defs download_defs)

lemma chain_expanded_3:
  "processCSS site_chain (import_rule ''http://h/4.css'') ''http://h/3.css''
   = Some (''/* Imported from: http://h/4.css */'' @ nl @ ''/* Imported from: http://h/5.css */'' @ nl @ ''/* Imported from: http://h/6.css */'' @ nl @ ''p{}'')"
  using chain_expanded_4
  by (subst processCSS.simps)
     (simp add: import_rule_def site_chain_def site_defs rx_defs download_defs)

lemma chain_expanded_2:
  "processCSS site_chain (import_rule ''http://h/3.css'') ''http://h/2.css''
   = Some (''/* Imported from: http://h/3.css */'' @ nl @ ''/* Imported from: http://h/4.css */'' @ nl @ ''/* Imported from: http://h/5.css */'' @ nl @ ''/* Imported from: http://h/6.css */'' @ nl @ ''p{}'')"
  using chain_expanded_3
  by (subst processCSS.simps)
     (simp add: import_rule_def site_chain_def site_defs rx_defs download_defs)

lemma chain_expanded_1:
  "processCSS site_chain (import_rule ''http://h/2.css'') ''http://h/1.css''
   = Some (''/* Imported from: http://h/2.css */'' @ nl @ ''/* Imported from: http://h/3.css */'' @ nl @ ''/* Imported from: http://h/4.css */'' @ nl @ ''/* Imported from: http://h/5.css */'' @ nl @ ''/* Imported from: http://h/6.css */'' @ nl @ ''p{}'')"
  using chain_expanded_2
  by (subst processCSS.simps)
     (simp add: import_rule_def site_chain_def site_defs rx_defs download_defs)

lemma chain_expanded_0:
  "processCSS site_chain (import_rule ''http://h/1.css'') ''http://h/0.css''
   = Some (''/* Imported from: http://h/1.css */'' @ nl @ ''/* Imported from: http://h/2.css */'' @ nl @ ''/* Imported from: http://h/3.css */'' @ nl @ ''/* Imported from: http://h/4.css */'' @ nl @ ''/* Imported from: http://h/5.css */'' @ nl @ ''/* Imported from: http://h/6.css */'' @ nl @ ''p{}'')"
  using chain_expanded_1
  by (subst processCSS.simps)
     (simp add: import_rule_def site_chain_def site_defs rx_defs download_defs)


text \<open>A rule with an unquoted target is not matched by the import pattern, and stays.\<close>

lemma unquoted_import_not_matched:
  "FindAllString importRe ''@import url(http://h/6.css);'' = []"
  by (simp add: rx_defs)

text \<open>
  C1 (as the code has it).  \<^verbatim>\<open>processCSS\<close> has no depth parameter and no cap.  When every
  request is answered: with a base URL that does not parse the text is returned as it is;
  with one that parses, the result is the text in which each match of the import pattern
  whose import is followed (the target resolves and downloads a non-empty text) is replaced
  by the comment naming the resolved URL and the result of \<^verbatim>\<open>processCSS\<close> itself on the
  downloaded text, every other match is kept, and the \<^verbatim>\<open>url()\<close> references are rewritten
  afterwards; and the expansion returns whenever no chain of followed imports from the
  text is longer than \<open>n\<close>, for any \<open>n\<close>.
\<close>

theorem processCSS_follows_imports_without_cap:
  assumes "\<forall>u. http_Get env u \<noteq> No_Answer"
  shows "(url_Parse env cssURL = None \<longrightarrow> processCSS env cssContent cssURL = Some cssContent)
   \<and> (url_Parse env cssURL = Some cssBaseURL \<longrightarrow>
        processCSS env cssContent cssURL
        = do { expanded \<leftarrow>
                 ReplaceAllStringFunc importRe cssContent
                   (\<lambda>match. case followed_import env cssBaseURL match of
                               None \<Rightarrow> Some match
                             | Some (importedCSS, importURL) \<Rightarrow>
                                 do { inner \<leftarrow> processCSS env importedCSS importURL;
                                      Some (''/* Imported from: '' @ importURL @ '' */'' @ nl
                                            @ inner) });
               ReplaceAllStringFunc urlRe expanded (processCSS_url env cssBaseURL) })
   \<and> (import_depth_within n env cssContent cssURL \<longrightarrow>
        (\<exists>out. processCSS env cssContent cssURL = Some out))"
proof (intro conjI impI)
  assume "url_Parse env cssURL = None"
  then show "processCSS env cssContent cssURL = Some cssContent"
    by (subst processCSS.simps) simp
next
  assume parse: "url_Parse env cssURL = Some cssBaseURL"
  let ?source = "\<lambda>match.
                      let importMatch = FindStringSubmatch importRe match in
                      if length importMatch < 2 then Some match
                      else
                        (let importURL = resolveURL env cssBaseURL (importMatch ! 1) in
                         if importURL = [] then Some match
                         else
                           do { importedCSS \<leftarrow> downloadResource env importURL;
                                if importedCSS = [] then Some match
                                else
                                  do { inner \<leftarrow> processCSS env importedCSS importURL;
                                       Some (''/* Imported from: '' @ importURL @ '' */'' @ nl
                                             @ inner) } })"
  let ?stated = "\<lambda>match. case followed_import env cssBaseURL match of
                               None \<Rightarrow> Some match
                             | Some (importedCSS, importURL) \<Rightarrow>
                                 do { inner \<leftarrow> processCSS env importedCSS importURL;
                                      Some (''/* Imported from: '' @ importURL @ '' */'' @ nl
                                            @ inner) }"
  have "?source m = ?stated m" for m
  proof -
    let ?u = "resolveURL env cssBaseURL (FindStringSubmatch importRe m ! 1)"
    obtain d where "downloadResource env ?u = Some d"
      using assms downloadResource_answers [of env ?u] by auto
    then show ?thesis
      by (simp add: followed_import_def Let_def)
  qed
  then have same: "?source = ?stated" by (rule ext)
  have "processCSS env cssContent cssURL
        = do { expanded \<leftarrow> ReplaceAllStringFunc importRe cssContent ?source;
               ReplaceAllStringFunc urlRe expanded (processCSS_url env cssBaseURL) }"
    using parse by (subst processCSS.simps) simp
  then show "processCSS env cssContent cssURL
        = do { expanded \<leftarrow> ReplaceAllStringFunc importRe cssContent ?stated;
               ReplaceAllStringFunc urlRe expanded (processCSS_url env cssBaseURL) }"
    by (simp only: same)
next
  assume "import_depth_within n env cssContent cssURL"
  then show "\<exists>out. processCSS env cssContent cssURL = Some out"
    using assms by (intro processCSS_returns_on_bounded_imports)
qed

theorem processCSS_follows_imports_without_cap_witness:
  "import_depth_within 6 site_chain (import_rule ''http://h/1.css'') ''http://h/0.css''
   \<and> \<not> import_depth_within 5 site_chain (import_rule ''http://h/1.css'') ''http://h/0.css''
   \<and> processCSS site_chain (import_rule ''http://h/1.css'') ''http://h/0.css''
     = Some (''/* Imported from: http://h/1.css */'' @ nl @ ''/* Imported from: http://h/2.css */'' @ nl
             @ ''/* Imported from: http://h/3.css */'' @ nl @ ''/* Imported from: http://h/4.css */'' @ nl
             @ ''/* Imported from: http://h/5.css */'' @ nl @ ''/* Imported from: http://h/6.css */'' @ nl
             @ ''p{}'')"
proof -
  have a: "\<forall>u. http_Get site_chain u \<noteq> No_Answer"
    by (simp add: site_chain_def site_defs)
  note t = processCSS_follows_imports_without_cap [OF a, of "''http://h/0.css''"
      "import_rule ''http://h/1.css''" "''http://h/0.css''" 6]
  have "\<exists>out. processCSS site_chain (import_rule ''http://h/1.css'') ''http://h/0.css'' = Some out"
    using t chain_depth by blast
  then show ?thesis
    using chain_depth chain_expanded_0 by simp
qed

text \<open>Two sheets that import each other: no run on them returns.\<close>

lemma loop_aux:
  assumes "processCSS env css url = Some y"
  shows "\<not> (env = site_loop
            \<and> ((css = import_rule ''http://h/b.css'' \<and> url = ''http://h/a.css'')
                 \<or> (css = import_rule ''http://h/a.css'' \<and> url = ''http://h/b.css'')))"
proof (rule processCSS.raw_induct
    [where P = "\<lambda>env css url y. \<not> (env = site_loop
            \<and> ((css = import_rule ''http://h/b.css'' \<and> url = ''http://h/a.css'')
                 \<or> (css = import_rule ''http://h/a.css'' \<and> url = ''http://h/b.css'')))",
     OF _ assms], goal_cases)
  case (1 f env css url y)
  have a: "f site_loop (import_rule ''http://h/b.css'') ''http://h/a.css'' = None"
    using 1(1) by (cases "f site_loop (import_rule ''http://h/b.css'') ''http://h/a.css''") auto
  have b: "f site_loop (import_rule ''http://h/a.css'') ''http://h/b.css'' = None"
    using 1(1) by (cases "f site_loop (import_rule ''http://h/a.css'') ''http://h/b.css''") auto
  show ?case
  proof (intro notI, elim conjE disjE)
    assume "env = site_loop" "css = import_rule ''http://h/b.css''" "url = ''http://h/a.css''"
    then show False using 1(2) b
      by (simp add: import_rule_def site_loop_def site_defs rx_defs download_defs)
  next
    assume "env = site_loop" "css = import_rule ''http://h/a.css''" "url = ''http://h/b.css''"
    then show False using 1(2) a
      by (simp add: import_rule_def site_loop_def site_defs rx_defs download_defs)
  qed
qed

text \<open>
  C1, counterexample.  On two sheets that import each other the expansion does not return.
\<close>

theorem cyclic_imports_never_return:
  "processCSS site_loop (import_rule ''http://h/b.css'') ''http://h/a.css'' = None"
  using loop_aux [of site_loop "import_rule ''http://h/b.css''" "''http://h/a.css''"]
  by (cases "processCSS site_loop (import_rule ''http://h/b.css'') ''http://h/a.css''") auto

section \<open>References that cannot be fetched\<close>

text \<open>
  When the reference that a callback reads does not resolve or its download fails, the
  callback returns its match; a document in which this holds for every match of the link,
  script or image pass goes through that pass unchanged.
\<close>

lemma FindStringSubmatch_shape:
  "FindStringSubmatch r s = [] \<or> (\<exists>whole g. FindStringSubmatch r s = [whole, g])"
  by (induction s) (auto split: option.splits)

lemma fetch_fails_download:
  assumes "fetch_fails env b ref" and "resolveURL env b ref \<noteq> []"
  shows "downloadResource env (resolveURL env b ref) = Some []"
    and "downloadAndEncodeImage env (resolveURL env b ref) = Some []"
  using assms
  by (auto simp: fetch_fails_def downloadResource_def downloadAndEncodeImage_def Let_def
      split: outcome.splits)

lemma inlineCSS_repl_failed:
  "FindStringSubmatch hrefRe m = [whole, ref] \<Longrightarrow> fetch_fails env b ref \<Longrightarrow>
   inlineCSS_repl env b m = Some m"
  using fetch_fails_download(1) [of env b ref]
  by (cases "resolveURL env b ref = []") (simp_all add: inlineCSS_repl_def Let_def)

lemma inlineJavaScript_repl_failed:
  "FindStringSubmatch srcRe m = [whole, ref] \<Longrightarrow> fetch_fails env b ref \<Longrightarrow>
   inlineJavaScript_repl env b m = Some m"
  using fetch_fails_download(1) [of env b ref]
  by (cases "resolveURL env b ref = []") (simp_all add: inlineJavaScript_repl_def Let_def)

lemma inlineImages_img_failed:
  "FindStringSubmatch srcRe m = [whole, ref] \<Longrightarrow> fetch_fails env b ref \<Longrightarrow>
   inlineImages_img env b m = Some m"
  using fetch_fails_download(2) [of env b ref]
  by (cases "resolveURL env b ref = []") (simp_all add: inlineImages_img_def Let_def)

lemma inlineImages_js_failed:
  "take (length m - 1 - 1) (drop 1 m) = ref \<Longrightarrow> fetch_fails env b ref \<Longrightarrow>
   inlineImages_js env b m = Some m"
  using fetch_fails_download(2) [of env b ref]
  by (cases "resolveURL env b ref = []") (auto simp: inlineImages_js_def Let_def)

lemma processCSS_url_failed:
  "FindStringSubmatch urlRe m = [whole, ref] \<Longrightarrow> fetch_fails env b ref \<Longrightarrow>
   processCSS_url env b m = Some m"
  using fetch_fails_download(2) [of env b ref]
  by (cases "resolveURL env b ref = []") (auto simp: processCSS_url_def Let_def)

lemma processInlineCSS_url_failed:
  "FindStringSubmatch urlRe m = [whole, ref] \<Longrightarrow> fetch_fails env b ref \<Longrightarrow>
   processInlineCSS_url env b m = Some m"
  using fetch_fails_download(2) [of env b ref]
  by (cases "resolveURL env b ref = []") (auto simp: processInlineCSS_url_def Let_def)

lemma inlineCSS_all_failed:
  assumes "\<forall>m \<in> set (FindAllString linkRe html). \<forall>whole ref.
             FindStringSubmatch hrefRe m = [whole, ref] \<longrightarrow> fetch_fails env b ref"
  shows "inlineCSS env html b = Some html"
  unfolding inlineCSS_def
proof (rule ReplaceAllStringFunc_unchanged)
  fix m assume m: "m \<in> set (FindAllString linkRe html)"
  show "inlineCSS_repl env b m = Some m"
  proof (cases "length (FindStringSubmatch hrefRe m) < 2")
    case True
    then show ?thesis by (simp add: inlineCSS_repl_def)
  next
    case False
    then obtain whole ref where "FindStringSubmatch hrefRe m = [whole, ref]"
      using FindStringSubmatch_shape [of hrefRe m] by auto
    then show ?thesis using assms m by (auto intro: inlineCSS_repl_failed)
  qed
qed

lemma inlineJavaScript_all_failed:
  assumes "\<forall>m \<in> set (FindAllString scriptRe html). \<forall>whole ref.
             FindStringSubmatch srcRe m = [whole, ref] \<longrightarrow> fetch_fails env b ref"
  shows "inlineJavaScript env html b = Some html"
  unfolding inlineJavaScript_def
proof (rule ReplaceAllStringFunc_unchanged)
  fix m assume m: "m \<in> set (FindAllString scriptRe html)"
  show "inlineJavaScript_repl env b m = Some m"
  proof (cases "length (FindStringSubmatch srcRe m) < 2")
    case True
    then show ?thesis by (simp add: inlineJavaScript_repl_def)
  next
    case False
    then obtain whole ref where "FindStringSubmatch srcRe m = [whole, ref]"
      using FindStringSubmatch_shape [of srcRe m] by auto
    then show ?thesis using assms m by (auto intro: inlineJavaScript_repl_failed)
  qed
qed

lemma inlineImages_all_failed:
  assumes "\<forall>m \<in> set (FindAllString imgRe html). \<forall>whole ref.
             FindStringSubmatch srcRe m = [whole, ref] \<longrightarrow> fetch_fails env b ref"
    and "\<forall>m \<in> set (FindAllString jsImgRe html).
             fetch_fails env b (take (length m - 1 - 1) (drop 1 m))"
  shows "inlineImages env html b = Some html"
proof -
  have "ReplaceAllStringFunc imgRe html (inlineImages_img env b) = Some html"
  proof (rule ReplaceAllStringFunc_unchanged)
    fix m assume m: "m \<in> set (FindAllString imgRe html)"
    show "inlineImages_img env b m = Some m"
    proof (cases "length (FindStringSubmatch srcRe m) < 2")
      case True
      then show ?thesis by (simp add: inlineImages_img_def)
    next
      case False
      then obtain whole ref where "FindStringSubmatch srcRe m = [whole, ref]"
        using FindStringSubmatch_shape [of srcRe m] by auto
      then show ?thesis using assms(1) m by (auto intro: inlineImages_img_failed)
    qed
  qed
  moreover have "ReplaceAllStringFunc jsImgRe html (inlineImages_js env b) = Some html"
    using assms(2) by (intro ReplaceAllStringFunc_unchanged inlineImages_js_failed) auto
  ultimately show ?thesis by (simp add: inlineImages_def)
qed


text \<open>
  C2, at a failing input.  The callbacks return their match when the reference they read
  fails, as the lemmas above say, but the pattern \<^verbatim>\<open>src=\<close> also matches inside
  \<^verbatim>\<open>data-src=\<close>.  In an image tag with a downloadable image in \<^verbatim>\<open>data-src\<close> and a
  missing one (status 404) in \<^verbatim>\<open>src\<close>, the callback reads the \<^verbatim>\<open>data-src\<close> value and
  overwrites both attributes: the reference whose fetch fails is not left as it was.
\<close>

theorem failing_src_is_overwritten:
  "fetch_fails site_lazy ''http://h/'' ''http://h/missing.png''
   \<and> map_option fst (inlineAllResources site_lazy missing_img ''http://h/'' w0)
     = Some (''<img data-src='' @ dq @ ''data:image/png;base64,TWFu'' @ dq
             @ '' src='' @ dq @ ''data:image/png;base64,TWFu'' @ dq @ ''>'')"
  by (simp add: fetch_fails_def inlineAllResources_def time_Now_def inline_defs missing_img_def
      site_lazy_def site_defs rx_defs download_defs extract_name_def is_name_char_def)

section \<open>Trigger tokens\<close>

text \<open>When every archive job fails, the content is returned as it was.\<close>

lemma failed_tokens_stay:
  assumes "\<forall>m \<in> set matches. \<forall>w. \<exists>e w'. archiveWebsite env (TrimPrefix m ''+'') w = Some (Inl e, w')"
  shows "\<exists>w'. processArchiveLinks_loop env matches content w = Some (content, w')"
  using assms
proof (induction matches arbitrary: w)
  case Nil
  then show ?case by simp
next
  case (Cons m ms)
  obtain e w1 where "archiveWebsite env (TrimPrefix m ''+'') w = Some (Inl e, w1)"
    using Cons.prems by fastforce
  moreover obtain w' where "processArchiveLinks_loop env ms content w1 = Some (content, w')"
    using Cons by fastforce
  ultimately show ?case by simp
qed


text \<open>
  C3, at a failing input.  The link replaces the first occurrence of the token's text in
  the content, not the token at its position.  In \<^verbatim>\<open>See +http://h/old and +http://h\<close> the
  job for the first token fails and the job for the second succeeds; the link is written
  over the start of the first token, and the second token stays.
\<close>

theorem failed_token_is_overwritten:
  "map_option fst (processArchiveLinks site_tokens ''See +http://h/old and +http://h'' w0)
   = Some ''See [T](assets/sites/2006_01_02_150405_T-h.html) (archived 2006-01-02 15:04)/old and +http://h''"
  by (simp add: processArchiveLinks_def archiveWebsite_def inlineAllResources_def time_Now_def
      extractTitle_def TrimSpace_def sanitizeFilename_def Trim_def invalid_chars_def backslash_def
      inline_defs site_tokens_def site_defs rx_defs download_defs)


section \<open>References that are data URIs\<close>

text \<open>A callback returns its match when the reference it reads starts with \<^verbatim>\<open>data:\<close>.\<close>

lemma data_uri_skipped:
  assumes "HasPrefix ref ''data:''"
  shows "FindStringSubmatch srcRe m = [whole, ref] \<Longrightarrow> inlineImages_img env b m = Some m"
    and "take (length m - 1 - 1) (drop 1 m) = ref \<Longrightarrow> inlineImages_js env b m = Some m"
    and "FindStringSubmatch urlRe m = [whole, ref] \<Longrightarrow> processCSS_url env b m = Some m"
    and "FindStringSubmatch urlRe m = [whole, ref] \<Longrightarrow> processInlineCSS_url env b m = Some m"
  using assms
  by (simp_all add: inlineImages_img_def inlineImages_js_def processCSS_url_def
      processInlineCSS_url_def Let_def)

text \<open>
  C7, at a failing input.  The pattern \<^verbatim>\<open>src=\<close> also matches inside \<^verbatim>\<open>data-src=\<close>.  For an
  image tag with the real image in \<^verbatim>\<open>data-src\<close> and a placeholder data URI in \<^verbatim>\<open>src\<close>, the
  callback reads the \<^verbatim>\<open>data-src\<close> value, downloads it and overwrites both attributes: the
  \<^verbatim>\<open>src\<close> that was a data URI already is changed.
\<close>

theorem data_uri_src_is_overwritten:
  "inlineImages site_lazy lazy_img ''http://h/''
   = Some (''<img data-src='' @ dq @ ''data:image/png;base64,TWFu'' @ dq
           @ '' src='' @ dq @ ''data:image/png;base64,TWFu'' @ dq @ ''>'')"
  by (simp add: inline_defs lazy_img_def site_lazy_def site_defs rx_defs download_defs
      extract_name_def is_name_char_def)

end
